theory Spec2Isabelle
  imports Main "HOL-Library.Word"
begin

unbundle bit_operations_syntax

section \<open>Machine types\<close>

type_synonym u8 = "8 word"
type_synonym u16 = "16 word"

section \<open>Build-time configuration\<close>

text \<open>
  \<open>timonel.c\<close> includes \<open>timonel.h\<close>, which is not part of the sources at hand, so
  every macro it takes from there is a field of the configuration record: the flash
  layout, the packet and buffer sizes, the bit numbers of the \<open>MemPack\<close> flags, the
  command and acknowledge codes and the feature toggles tested by \<open>#if\<close>. Macros that only
  drive the LED, the oscillator calibration, the prescaler and the watchdog do not
  influence the protocol state or the flash operations and are left out together with the
  statements they guard.
\<close>

record codes =
  GETTMNLV :: u8
  EXITTMNL :: u8
  DELFLASH :: u8
  STPGADDR :: u8
  WRITPAGE :: u8
  READFLSH :: u8
  INITSOFT :: u8
  ACKTMNLV :: u8
  ACKEXITT :: u8
  ACKDELFL :: u8
  AKPGADDR :: u8
  ACKWTPAG :: u8
  ACKRDFSH :: u8
  ACKINITS :: u8
  ID_CHAR_3 :: u8
  TML_FEATURES :: u8
  TML_EXT_FEATURES :: u8

record config =
  TWI_ADDR :: nat
  SPM_PAGESIZE :: nat
  TIMONEL_START :: nat
  RESET_PAGE :: nat
  MST_PACKET_SIZE :: nat
  TWI_RX_BUFFER_SIZE :: nat
  TWI_TX_BUFFER_SIZE :: nat
  FL_INIT_1 :: nat
  FL_INIT_2 :: nat
  FL_DEL_FLASH :: nat
  FL_EXIT_TML :: nat
  SHORT_EXIT_DLY :: u8
  SHORT_LED_DLY :: u16
  AUTO_PAGE_ADDR :: bool
  CMD_SETPGADDR :: bool
  CMD_READFLASH :: bool
  TWO_STEP_INIT :: bool
  APP_USE_TPL_PG :: bool
  CHECK_PAGE_IX :: bool
  FORCE_ERASE_PG :: bool
  USE_WDT_RESET :: bool
  TIMEOUT_EXIT :: bool
  cmd :: codes

text \<open>
  \<open>#define TWI_RX_BUFFER_MASK (TWI_RX_BUFFER_SIZE - 1)\<close> and its TX twin, as in the
  driver header \<open>nb-usitwisl-if3.h\<close>.
\<close>

definition TWI_RX_BUFFER_MASK :: "config \<Rightarrow> nat" where
  "TWI_RX_BUFFER_MASK cfg = TWI_RX_BUFFER_SIZE cfg - 1"

definition TWI_TX_BUFFER_MASK :: "config \<Rightarrow> nat" where
  "TWI_TX_BUFFER_MASK cfg = TWI_TX_BUFFER_SIZE cfg - 1"

section \<open>Program state\<close>

datatype OverflowState =
    STATE_CHECK_RECEIVED_ADDRESS
  | STATE_SEND_DATA_BYTE
  | STATE_RECEIVE_ACK_AFTER_SENDING_DATA
  | STATE_CHECK_RECEIVED_ACK
  | STATE_RECEIVE_DATA_BYTE
  | STATE_PUT_BYTE_IN_RX_BUFFER_AND_SEND_ACK

record MemPack =
  page_addr :: u16
  page_ix :: u8
  flags :: u8
  app_reset_lsb :: u8
  app_reset_msb :: u8

text \<open>
  The self-programming primitives of \<open>avr/boot.h\<close> act on the flash controller; the model
  records each call, in order, in a trace. Three more events mark points of \<open>main\<close>: the
  call of \<open>UsiOverflowHandler\<close>, its return with the returned value, and the assignment
  \<open>slow_ops_enabled = false\<close> that consumes the permission. \<open>Jumped\<close> records a transfer of
  control out of the main loop.
\<close>

datatype target = To_Application | To_Timonel_Start | Watchdog_Reset

datatype event =
    Page_Fill u16 u16
  | Page_Erase u16
  | Page_Write u16
  | Buffer_Clear
  | Overflow_Enter
  | Overflow_Return bool
  | Slow_Ops_Consumed
  | Jumped target

text \<open>
  The globals of the driver, the USI and port registers the code writes, the static
  \<open>command\<close> array of the overflow handler, the locals of \<open>main\<close> that live across loop
  iterations, and the trace. A register field holds the value last written by the program
  (or, for \<open>USIDR\<close>, shifted in by the hardware before the handler runs); values the
  hardware produces are read from \<open>inputs\<close>.
\<close>

record state =
  rx_buffer :: "u8 list"
  tx_buffer :: "u8 list"
  rx_byte_count :: u8
  rx_head :: u8
  rx_tail :: u8
  tx_head :: u8
  tx_tail :: u8
  device_state :: OverflowState
  command :: "u8 list"
  USIDR :: u8
  USISR :: u8
  USICR :: u8
  DDR_USI :: u8
  PORT_USI :: u8
  mem_pack :: MemPack
  slow_ops_enabled :: bool
  led_delay :: u16
  exit_delay :: u8
  trace :: "event list"

text \<open>
  What the hardware supplies during one iteration of the main loop: \<open>USISR\<close> as read by
  the two polls, the data register when the overflow is serviced, the successive reads of
  \<open>PIN_USI\<close> in the start handler, program memory as read through \<open>__flash\<close> pointers, the
  low fuse and \<open>OSCCAL\<close>.
\<close>

record inputs =
  in_USISR_start :: u8
  in_USISR_overflow :: u8
  in_USIDR :: u8
  in_PIN_USI :: "u8 list"
  in_flash :: "u16 \<Rightarrow> u8"
  in_low_fuse :: u8
  in_OSCCAL :: u8

text \<open>
  How a call ends. \<open>Returns r s\<close>: it returns \<open>r\<close> in state \<open>s\<close>. \<open>Spins s\<close>: it enters
  a loop that never ends, \<open>s\<close> being the state at that moment (nothing else runs while
  the program polls, so a busy-wait whose condition holds once holds forever).
  \<open>Jumps t s\<close>: control leaves through a function pointer or a reset. \<open>Undefined s\<close>:
  the C code is about to write outside an array, \<open>s\<close> being the state just before that
  write; the language does not say what the program does from there on, so the run is
  followed no further.
\<close>

datatype 'r outcome =
    Returns 'r state
  | Spins state
  | Jumps target state
  | Undefined state

fun final :: "'r outcome \<Rightarrow> state option" where
  "final (Returns r s) = Some s"
| "final (Spins s) = Some s"
| "final (Jumps t s) = Some s"
| "final (Undefined s) = Some s"

text \<open>Sequencing: the continuation runs only when the first call returns.\<close>

fun and_then :: "'a outcome \<Rightarrow> ('a \<Rightarrow> state \<Rightarrow> 'b outcome) \<Rightarrow> 'b outcome" where
  "and_then (Returns r s) k = k r s"
| "and_then (Spins s) k = Spins s"
| "and_then (Jumps t s) k = Jumps t s"
| "and_then (Undefined s) k = Undefined s"

definition emit :: "event \<Rightarrow> state \<Rightarrow> state" where
  "emit e s = s\<lparr>trace := trace s @ [e]\<rparr>"

definition boot_page_fill :: "u16 \<Rightarrow> u16 \<Rightarrow> state \<Rightarrow> state" where
  "boot_page_fill a w s = emit (Page_Fill a w) s"

definition boot_page_erase :: "u16 \<Rightarrow> state \<Rightarrow> state" where
  "boot_page_erase a s = emit (Page_Erase a) s"

definition boot_page_write :: "u16 \<Rightarrow> state \<Rightarrow> state" where
  "boot_page_write a s = emit (Page_Write a) s"

text \<open>\<open>(flags >> n) & true\<close> and \<open>flags |= (1 << n)\<close> on the 8-bit flags byte.\<close>

definition flag_set :: "u8 \<Rightarrow> nat \<Rightarrow> bool" where
  "flag_set f n = ((drop_bit n f) AND 1 \<noteq> 0)"

definition raise_flag :: "nat \<Rightarrow> MemPack \<Rightarrow> MemPack" where
  "raise_flag n mp = mp\<lparr>flags := flags mp OR push_bit n 1\<rparr>"

section \<open>USI registers\<close>

text \<open>
  Bit numbers of the ATtiny25/45/85 registers, as \<open>avr/io.h\<close> defines them, under the
  names the driver header gives them.
\<close>

definition TWI_START_COND_FLAG :: nat where "TWI_START_COND_FLAG = 7"
definition USI_OVERFLOW_FLAG :: nat where "USI_OVERFLOW_FLAG = 6"
definition TWI_STOP_COND_FLAG :: nat where "TWI_STOP_COND_FLAG = 5"
definition TWI_COLLISION_FLAG :: nat where "TWI_COLLISION_FLAG = 4"
definition USICNT0 :: nat where "USICNT0 = 0"
definition TWI_START_COND_INT :: nat where "TWI_START_COND_INT = 7"
definition USI_OVERFLOW_INT :: nat where "USI_OVERFLOW_INT = 6"
definition USIWM1 :: nat where "USIWM1 = 5"
definition USIWM0 :: nat where "USIWM0 = 4"
definition USICS1 :: nat where "USICS1 = 3"
definition USICS0 :: nat where "USICS0 = 2"
definition USICLK :: nat where "USICLK = 1"
definition USITC :: nat where "USITC = 0"
definition PORT_USI_SDA :: nat where "PORT_USI_SDA = 0"
definition PORT_USI_SCL :: nat where "PORT_USI_SCL = 2"
definition PIN_USI_SDA :: nat where "PIN_USI_SDA = 0"

definition SET_USI_SDA_AS_OUTPUT :: "state \<Rightarrow> state" where
  "SET_USI_SDA_AS_OUTPUT s = s\<lparr>DDR_USI := DDR_USI s OR push_bit PORT_USI_SDA 1\<rparr>"

definition SET_USI_SDA_AS_INPUT :: "state \<Rightarrow> state" where
  "SET_USI_SDA_AS_INPUT s = s\<lparr>DDR_USI := DDR_USI s AND NOT (push_bit PORT_USI_SDA 1)\<rparr>"

definition SET_USI_SDA_AND_SCL_AS_OUTPUT :: "state \<Rightarrow> state" where
  "SET_USI_SDA_AND_SCL_AS_OUTPUT s =
     s\<lparr>DDR_USI := DDR_USI s OR (push_bit PORT_USI_SDA 1 OR push_bit PORT_USI_SCL 1)\<rparr>"

definition SET_USI_TO_DETECT_TWI_START :: "state \<Rightarrow> state" where
  "SET_USI_TO_DETECT_TWI_START s =
     s\<lparr>USICR := push_bit TWI_START_COND_INT 1 OR push_bit USI_OVERFLOW_INT 0 OR
                 push_bit USIWM1 1 OR push_bit USIWM0 0 OR
                 push_bit USICS1 1 OR push_bit USICS0 0 OR push_bit USICLK 0 OR
                 push_bit USITC 0\<rparr>"

definition SET_USI_TO_DETECT_TWI_RESTART :: "state \<Rightarrow> state" where
  "SET_USI_TO_DETECT_TWI_RESTART s =
     s\<lparr>USICR := push_bit TWI_START_COND_INT 1 OR push_bit USI_OVERFLOW_INT 1 OR
                 push_bit USIWM1 1 OR push_bit USIWM0 1 OR
                 push_bit USICS1 1 OR push_bit USICS0 0 OR push_bit USICLK 0 OR
                 push_bit USITC 0\<rparr>"

definition SET_USI_TO_SHIFT_8_ADDRESS_BITS :: "state \<Rightarrow> state" where
  "SET_USI_TO_SHIFT_8_ADDRESS_BITS s =
     s\<lparr>USISR := push_bit TWI_START_COND_FLAG 1 OR push_bit USI_OVERFLOW_FLAG 1 OR
                 push_bit TWI_STOP_COND_FLAG 1 OR push_bit TWI_COLLISION_FLAG 1 OR
                 push_bit USICNT0 0x0\<rparr>"

definition SET_USI_TO_SHIFT_8_DATA_BITS :: "state \<Rightarrow> state" where
  "SET_USI_TO_SHIFT_8_DATA_BITS s =
     s\<lparr>USISR := push_bit TWI_START_COND_FLAG 0 OR push_bit USI_OVERFLOW_FLAG 1 OR
                 push_bit TWI_STOP_COND_FLAG 1 OR push_bit TWI_COLLISION_FLAG 1 OR
                 push_bit USICNT0 0x0\<rparr>"

definition SET_USI_TO_SHIFT_1_ACK_BIT :: "state \<Rightarrow> state" where
  "SET_USI_TO_SHIFT_1_ACK_BIT s =
     s\<lparr>USISR := push_bit TWI_START_COND_FLAG 0 OR push_bit USI_OVERFLOW_FLAG 1 OR
                 push_bit TWI_STOP_COND_FLAG 1 OR push_bit TWI_COLLISION_FLAG 1 OR
                 push_bit USICNT0 0x0E\<rparr>"

definition SET_USI_TO_WAIT_FOR_TWI_ADDRESS :: "state \<Rightarrow> state" where
  "SET_USI_TO_WAIT_FOR_TWI_ADDRESS s =
     SET_USI_TO_SHIFT_8_DATA_BITS (SET_USI_TO_DETECT_TWI_START s)"

definition SET_USI_TO_SEND_BYTE :: "state \<Rightarrow> state" where
  "SET_USI_TO_SEND_BYTE s = SET_USI_TO_SHIFT_8_DATA_BITS (SET_USI_SDA_AS_OUTPUT s)"

definition SET_USI_TO_RECEIVE_BYTE :: "state \<Rightarrow> state" where
  "SET_USI_TO_RECEIVE_BYTE s = SET_USI_TO_SHIFT_8_DATA_BITS (SET_USI_SDA_AS_INPUT s)"

definition SET_USI_TO_SEND_ACK :: "state \<Rightarrow> state" where
  "SET_USI_TO_SEND_ACK s =
     SET_USI_TO_SHIFT_1_ACK_BIT (SET_USI_SDA_AS_OUTPUT (s\<lparr>USIDR := 0\<rparr>))"

definition SET_USI_TO_RECEIVE_ACK :: "state \<Rightarrow> state" where
  "SET_USI_TO_RECEIVE_ACK s =
     SET_USI_TO_SHIFT_1_ACK_BIT (SET_USI_SDA_AS_INPUT (s\<lparr>USIDR := 0\<rparr>))"

section \<open>TX ring: UsiTwiTransmitByte\<close>

text \<open>
  \<open>(ix + 1) & MASK\<close>, computed in \<open>int\<close> and stored back into a \<open>uint8_t\<close> index. The
  result never exceeds the mask, so with a buffer of \<open>MASK + 1\<close> bytes every ring access
  is inside the array.
\<close>

definition next_ix :: "u8 \<Rightarrow> nat \<Rightarrow> u8" where
  "next_ix ix msk = of_nat ((unat ix + 1) AND msk)"

text \<open>
  \<^verbatim>\<open>tx_head = ((tx_head + 1) & TWI_TX_BUFFER_MASK);
  while (tx_head == tx_tail) {};
  tx_buffer[tx_head] = data_byte;\<close>
  Nothing changes \<open>tx_tail\<close> while the loop polls, so the wait either falls through at
  once or never ends.
\<close>

definition UsiTwiTransmitByte :: "config \<Rightarrow> u8 \<Rightarrow> state \<Rightarrow> unit outcome" where
  "UsiTwiTransmitByte cfg data_byte s =
     (let s1 = s\<lparr>tx_head := next_ix (tx_head s) (TWI_TX_BUFFER_MASK cfg)\<rparr>
      in if tx_head s1 = tx_tail s1 then Spins s1
         else Returns () (s1\<lparr>tx_buffer := (tx_buffer s1)[unat (tx_head s1) := data_byte]\<rparr>))"

text \<open>\<open>for (uint8_t i = 0; i < N; i++) UsiTwiTransmitByte(reply[i]);\<close> over a reply array.\<close>

fun transmit_reply :: "config \<Rightarrow> u8 list \<Rightarrow> state \<Rightarrow> unit outcome" where
  "transmit_reply cfg [] s = Returns () s"
| "transmit_reply cfg (b # bs) s =
     and_then (UsiTwiTransmitByte cfg b s) (\<lambda>u s'. transmit_reply cfg bs s')"

section \<open>Command handlers\<close>

definition TIMONEL_VER_MJR :: u8 where "TIMONEL_VER_MJR = 1"
definition TIMONEL_VER_MNR :: u8 where "TIMONEL_VER_MNR = 4"

definition Reply_GETTMNLV :: "config \<Rightarrow> inputs \<Rightarrow> u8 list \<Rightarrow> state \<Rightarrow> unit outcome" where
  "Reply_GETTMNLV cfg inp cmnd s =
     (let mem_position = (of_nat (TIMONEL_START cfg) - 1 :: u16);
          reply = [ACKTMNLV (cmd cfg), ID_CHAR_3 (cmd cfg), TIMONEL_VER_MJR, TIMONEL_VER_MNR,
                   TML_FEATURES (cmd cfg), TML_EXT_FEATURES (cmd cfg),
                   of_nat (drop_bit 8 (TIMONEL_START cfg AND 0xFF00)),
                   of_nat (TIMONEL_START cfg AND 0xFF),
                   in_flash inp mem_position,
                   in_flash inp (mem_position - 1),
                   in_low_fuse inp,
                   in_OSCCAL inp];
          s1 = s\<lparr>mem_pack := raise_flag (FL_INIT_1 cfg) (mem_pack s)\<rparr>
      in transmit_reply cfg reply s1)"

definition Reply_EXITTMNL :: "config \<Rightarrow> u8 list \<Rightarrow> state \<Rightarrow> unit outcome" where
  "Reply_EXITTMNL cfg cmnd s =
     and_then (UsiTwiTransmitByte cfg (ACKEXITT (cmd cfg)) s)
       (\<lambda>u s1. Returns () (s1\<lparr>mem_pack := raise_flag (FL_EXIT_TML cfg) (mem_pack s1)\<rparr>))"

definition Reply_DELFLASH :: "config \<Rightarrow> u8 list \<Rightarrow> state \<Rightarrow> unit outcome" where
  "Reply_DELFLASH cfg cmnd s =
     and_then (UsiTwiTransmitByte cfg (ACKDELFL (cmd cfg)) s)
       (\<lambda>u s1. Returns () (s1\<lparr>mem_pack := raise_flag (FL_DEL_FLASH cfg) (mem_pack s1)\<rparr>))"

text \<open>
  \<open>page_addr = ((command[1] << 8) + command[2]); page_addr &= ~(SPM_PAGESIZE - 1);\<close>
  in 16-bit arithmetic.
\<close>

definition Reply_STPGADDR :: "config \<Rightarrow> u8 list \<Rightarrow> state \<Rightarrow> unit outcome" where
  "Reply_STPGADDR cfg cmnd s =
     (let a = (push_bit 8 (ucast (cmnd ! 1)) + ucast (cmnd ! 2) :: u16);
          a' = a AND NOT (of_nat (SPM_PAGESIZE cfg) - 1);
          s1 = s\<lparr>mem_pack := (mem_pack s)\<lparr>page_addr := a'\<rparr>\<rparr>;
          reply = [AKPGADDR (cmd cfg), cmnd ! 1 + cmnd ! 2]
      in transmit_reply cfg reply s1)"

definition Reply_INITSOFT :: "config \<Rightarrow> u8 list \<Rightarrow> state \<Rightarrow> unit outcome" where
  "Reply_INITSOFT cfg cmnd s =
     UsiTwiTransmitByte cfg (ACKINITS (cmd cfg))
       (s\<lparr>mem_pack := raise_flag (FL_INIT_2 cfg) (mem_pack s)\<rparr>)"

text \<open>
  \<open>Reply_READFLSH\<close> builds a variable-length array of \<open>(uint8_t)(command[3] + 2)\<close> bytes: the
  acknowledge, \<open>command[3]\<close> bytes of flash and a checksum. For \<open>command[3] \<ge> 254\<close> the
  8-bit length wraps to 0 or 1 and the handler writes outside the array.
\<close>

fun read_flash :: "(u16 \<Rightarrow> u8) \<Rightarrow> u16 \<Rightarrow> nat \<Rightarrow> u8 list" where
  "read_flash fl a 0 = []"
| "read_flash fl a (Suc n) = fl a # read_flash fl (a + 1) n"

definition Reply_READFLSH :: "config \<Rightarrow> inputs \<Rightarrow> u8 list \<Rightarrow> state \<Rightarrow> unit outcome" where
  "Reply_READFLSH cfg inp cmnd s =
     (if 254 \<le> unat (cmnd ! 3) then Undefined s
      else
        let mem_position = (push_bit 8 (ucast (cmnd ! 1)) + ucast (cmnd ! 2) :: u16);
            data = read_flash (in_flash inp) mem_position (unat (cmnd ! 3));
            checksum = sum_list data + cmnd ! 1 + cmnd ! 2;
            reply = ACKRDFSH (cmd cfg) # data @ [checksum]
        in transmit_reply cfg reply s)"

text \<open>
  \<open>Reply_WRITPAGE\<close>. The two \<open>for\<close> loops have the same body and differ in the first
  index only:
  \<^verbatim>\<open>for (uint8_t i = 3 (or 1); i < (MST_PACKET_SIZE + 1); i += 2) {
      boot_page_fill((p_mem_pack->page_addr + p_mem_pack->page_ix), ((command[i + 1] << 8) | command[i]));
      reply[1] += (uint8_t)((command[i + 1]) + command[i]);
      p_mem_pack->page_ix += 2;
  }\<close>
  The index is a natural number here; it stays below 256, as the \<open>uint8_t\<close> of the source
  must, when \<open>MST_PACKET_SIZE \<le> 253\<close>. \<open>page_addr + page_ix\<close> is an \<open>unsigned int\<close> sum,
  16 bits wide on the AVR.
\<close>

function WRITPAGE_loop :: "config \<Rightarrow> u8 list \<Rightarrow> nat \<Rightarrow> u8 \<Rightarrow> state \<Rightarrow> u8 \<times> state" where
  "WRITPAGE_loop cfg cmnd i chk s =
     (if i < MST_PACKET_SIZE cfg + 1 then
        let mp = mem_pack s;
            s1 = boot_page_fill (page_addr mp + ucast (page_ix mp))
                   (push_bit 8 (ucast (cmnd ! (i + 1))) OR ucast (cmnd ! i)) s;
            chk1 = chk + (cmnd ! (i + 1) + cmnd ! i);
            s2 = s1\<lparr>mem_pack := (mem_pack s1)\<lparr>page_ix := page_ix (mem_pack s1) + 2\<rparr>\<rparr>
        in WRITPAGE_loop cfg cmnd (i + 2) chk1 s2
      else (chk, s))"
  by pat_completeness auto
termination
  by (relation "measure (\<lambda>(cfg, cmnd, i, chk, s). MST_PACKET_SIZE cfg + 1 - i)") auto

text \<open>
  The handler up to its last loop: the result is the \<open>reply\<close> array and the state just
  before the reply is handed to \<open>UsiTwiTransmitByte\<close>.
\<close>

definition WRITPAGE_reply :: "config \<Rightarrow> u8 list \<Rightarrow> state \<Rightarrow> u8 list \<times> state" where
  "WRITPAGE_reply cfg cmnd s =
     (let mp = mem_pack s;
          (chk, s3) =
            (if page_addr mp + ucast (page_ix mp) = of_nat (RESET_PAGE cfg) then
               let s1 = (if AUTO_PAGE_ADDR cfg
                         then s\<lparr>mem_pack := mp\<lparr>app_reset_lsb := cmnd ! 1,
                                                  app_reset_msb := cmnd ! 2\<rparr>\<rparr>
                         else s);
                   s2 = boot_page_fill (of_nat (RESET_PAGE cfg))
                          (0xC000 + (of_nat (TIMONEL_START cfg div 2) - 1)) s1;
                   chk = 0 + (cmnd ! 2 + cmnd ! 1);
                   s3 = s2\<lparr>mem_pack := (mem_pack s2)\<lparr>page_ix := page_ix (mem_pack s2) + 2\<rparr>\<rparr>
               in WRITPAGE_loop cfg cmnd 3 chk s3
             else WRITPAGE_loop cfg cmnd 1 0 s)
      in if chk \<noteq> cmnd ! (MST_PACKET_SIZE cfg + 1) \<or>
            (CHECK_PAGE_IX cfg \<and> SPM_PAGESIZE cfg < unat (page_ix (mem_pack s3)))
         then ([ACKWTPAG (cmd cfg), 0],
               s3\<lparr>mem_pack := raise_flag (FL_DEL_FLASH cfg) (mem_pack s3)\<rparr>)
         else ([ACKWTPAG (cmd cfg), chk], s3))"

definition Reply_WRITPAGE :: "config \<Rightarrow> u8 list \<Rightarrow> state \<Rightarrow> unit outcome" where
  "Reply_WRITPAGE cfg cmnd s =
     (case WRITPAGE_reply cfg cmnd s of (reply, s') \<Rightarrow> transmit_reply cfg reply s')"

section \<open>Command dispatcher: ReceiveEvent\<close>

text \<open>
  The \<open>switch\<close> on \<open>command[0]\<close>, in the order of its \<open>case\<close> labels; a label compiled out
  by its \<open>#if\<close> never matches, and an unknown code falls out of the \<open>switch\<close>.
\<close>

definition ReceiveEvent :: "config \<Rightarrow> inputs \<Rightarrow> u8 list \<Rightarrow> state \<Rightarrow> unit outcome" where
  "ReceiveEvent cfg inp cmnd s =
     (let c = cmnd ! 0 in
      if c = GETTMNLV (cmd cfg) then Reply_GETTMNLV cfg inp cmnd s
      else if c = EXITTMNL (cmd cfg) then Reply_EXITTMNL cfg cmnd s
      else if c = DELFLASH (cmd cfg) then Reply_DELFLASH cfg cmnd s
      else if (CMD_SETPGADDR cfg \<or> \<not> AUTO_PAGE_ADDR cfg) \<and> c = STPGADDR (cmd cfg)
           then Reply_STPGADDR cfg cmnd s
      else if c = WRITPAGE (cmd cfg) then Reply_WRITPAGE cfg cmnd s
      else if CMD_READFLASH cfg \<and> c = READFLSH (cmd cfg) then Reply_READFLSH cfg inp cmnd s
      else if TWO_STEP_INIT cfg \<and> c = INITSOFT (cmd cfg) then Reply_INITSOFT cfg cmnd s
      else Returns () s)"

section \<open>USI TWI driver\<close>

definition UsiTwiDriverInit :: "state \<Rightarrow> state" where
  "UsiTwiDriverInit s =
     (let s1 = s\<lparr>tx_head := 0, tx_tail := 0\<rparr>;
          s2 = s1\<lparr>rx_byte_count := 0, rx_head := 0, rx_tail := 0\<rparr>;
          s3 = SET_USI_SDA_AND_SCL_AS_OUTPUT s2;
          s4 = s3\<lparr>PORT_USI := PORT_USI s3 OR push_bit PORT_USI_SDA 1\<rparr>;
          s5 = s4\<lparr>PORT_USI := PORT_USI s4 OR push_bit PORT_USI_SCL 1\<rparr>;
          s6 = SET_USI_SDA_AS_INPUT s5
      in SET_USI_TO_WAIT_FOR_TWI_ADDRESS s6)"

text \<open>
  \<open>TwiStartHandler\<close> polls the pins until SCL is low or SDA is high. \<open>in_PIN_USI\<close> lists
  what the successive reads of \<open>PIN_USI\<close> return, the pins keeping their last value when
  the list is used up: the loop ends with the first read that does not satisfy its
  condition, and \<open>start_wait\<close> gives the read the \<open>if\<close> after the loop makes. With no
  read ending the loop the handler waits forever.
\<close>

definition pin_high :: "u8 \<Rightarrow> nat \<Rightarrow> bool" where
  "pin_high p n = (p AND push_bit n 1 \<noteq> 0)"

fun start_wait :: "u8 list \<Rightarrow> u8 option" where
  "start_wait [] = None"
| "start_wait (p # ps) =
     (if pin_high p PORT_USI_SCL \<and> \<not> pin_high p PORT_USI_SDA then start_wait ps
      else Some (case ps of [] \<Rightarrow> p | q # qs \<Rightarrow> q))"

definition TwiStartHandler :: "inputs \<Rightarrow> state \<Rightarrow> unit outcome" where
  "TwiStartHandler inp s =
     (let s1 = SET_USI_SDA_AS_INPUT s;
          s2 = s1\<lparr>device_state := STATE_CHECK_RECEIVED_ADDRESS\<rparr>
      in case start_wait (in_PIN_USI inp) of
           None \<Rightarrow> Spins s2
         | Some p \<Rightarrow>
             Returns () (SET_USI_TO_SHIFT_8_ADDRESS_BITS
               (if \<not> pin_high p PIN_USI_SDA then SET_USI_TO_DETECT_TWI_RESTART s2
                else SET_USI_TO_DETECT_TWI_START s2)))"

text \<open>
  Draining the RX ring into the static \<open>command\<close> array:
  \<^verbatim>\<open>for (uint8_t i = 0; i < command_size; i++) {
      while (rx_byte_count-- == 0) {};
      rx_tail = ((rx_tail + 1) & TWI_RX_BUFFER_MASK);
      command[i] = rx_buffer[rx_tail];
  }\<close>
  The \<open>while\<close> decrements the counter on every test: from 0 it wraps to 255, tests again
  and leaves with 254; from any other value it leaves at once, one lower. \<open>command\<close> has
  \<open>MST_PACKET_SIZE * 2\<close> elements and the loop does not check \<open>i\<close> against that.
\<close>

function RX_drain :: "config \<Rightarrow> nat \<Rightarrow> nat \<Rightarrow> state \<Rightarrow> unit outcome" where
  "RX_drain cfg command_size i s =
     (if i < command_size then
        let c = rx_byte_count s;
            s1 = s\<lparr>rx_byte_count := (if c = 0 then c - 2 else c - 1)\<rparr>;
            s2 = s1\<lparr>rx_tail := next_ix (rx_tail s1) (TWI_RX_BUFFER_MASK cfg)\<rparr>
        in if i < length (command s2)
           then RX_drain cfg command_size (i + 1)
                  (s2\<lparr>command := (command s2)[i := rx_buffer s2 ! unat (rx_tail s2)]\<rparr>)
           else Undefined s2
      else Returns () s)"
  by pat_completeness auto
termination
  by (relation "measure (\<lambda>(cfg, command_size, i, s). command_size - i)") auto

text \<open>The body of \<open>case STATE_SEND_DATA_BYTE\<close>, which \<open>STATE_CHECK_RECEIVED_ACK\<close> falls into.\<close>

definition SEND_DATA_BYTE_case :: "config \<Rightarrow> state \<Rightarrow> bool outcome" where
  "SEND_DATA_BYTE_case cfg s =
     (if tx_head s \<noteq> tx_tail s then
        let s1 = s\<lparr>tx_tail := next_ix (tx_tail s) (TWI_TX_BUFFER_MASK cfg)\<rparr>;
            s2 = s1\<lparr>USIDR := tx_buffer s1 ! unat (tx_tail s1)\<rparr>;
            s3 = s2\<lparr>device_state := STATE_RECEIVE_ACK_AFTER_SENDING_DATA\<rparr>
        in Returns False (SET_USI_TO_SEND_BYTE s3)
      else Returns False (SET_USI_TO_WAIT_FOR_TWI_ADDRESS (SET_USI_TO_RECEIVE_ACK s)))"

text \<open>
  \<open>UsiOverflowHandler\<close>. Every \<open>case\<close> of the \<open>switch\<close> returns, and the six states are all
  the values of \<open>device_state\<close>, so the statement after the \<open>switch\<close> is never reached.
\<close>

definition UsiOverflowHandler :: "config \<Rightarrow> inputs \<Rightarrow> state \<Rightarrow> bool outcome" where
  "UsiOverflowHandler cfg inp s =
     (case device_state s of
        STATE_CHECK_RECEIVED_ADDRESS \<Rightarrow>
          if USIDR s = 0 \<or> unat (drop_bit 1 (USIDR s)) = TWI_ADDR cfg then
            if USIDR s AND 0x01 \<noteq> 0 then
              and_then (RX_drain cfg (unat (rx_byte_count s)) 0 s)
                (\<lambda>u s1. and_then (ReceiveEvent cfg inp (command s1) s1)
                   (\<lambda>u s2. Returns False
                      (SET_USI_TO_SEND_ACK (s2\<lparr>device_state := STATE_SEND_DATA_BYTE\<rparr>))))
            else Returns False (SET_USI_TO_SEND_ACK (s\<lparr>device_state := STATE_RECEIVE_DATA_BYTE\<rparr>))
          else Returns False (SET_USI_TO_WAIT_FOR_TWI_ADDRESS s)
      | STATE_CHECK_RECEIVED_ACK \<Rightarrow>
          if USIDR s \<noteq> 0 then Returns True (SET_USI_TO_WAIT_FOR_TWI_ADDRESS s)
          else SEND_DATA_BYTE_case cfg s
      | STATE_SEND_DATA_BYTE \<Rightarrow> SEND_DATA_BYTE_case cfg s
      | STATE_RECEIVE_ACK_AFTER_SENDING_DATA \<Rightarrow>
          Returns False (SET_USI_TO_RECEIVE_ACK (s\<lparr>device_state := STATE_CHECK_RECEIVED_ACK\<rparr>))
      | STATE_RECEIVE_DATA_BYTE \<Rightarrow>
          Returns False
            (SET_USI_TO_RECEIVE_BYTE
               (s\<lparr>device_state := STATE_PUT_BYTE_IN_RX_BUFFER_AND_SEND_ACK\<rparr>))
      | STATE_PUT_BYTE_IN_RX_BUFFER_AND_SEND_ACK \<Rightarrow>
          let s1 = s\<lparr>rx_byte_count := rx_byte_count s + 1\<rparr>;
              s2 = s1\<lparr>rx_head := next_ix (rx_head s1) (TWI_RX_BUFFER_MASK cfg)\<rparr>;
              s3 = s2\<lparr>rx_buffer := (rx_buffer s2)[unat (rx_head s2) := USIDR s2]\<rparr>;
              s4 = s3\<lparr>device_state := STATE_RECEIVE_DATA_BYTE\<rparr>
          in Returns False (SET_USI_TO_SEND_ACK s4))"

section \<open>Reset-vector trampoline (main, page-commit slow operation)\<close>

text \<open>
  The expression of \<open>main\<close> that computes the trampoline word:
  \<^verbatim>\<open>uint16_t tpl = (((~((TIMONEL_START >> 1) - ((((mem_pack.app_reset_msb << 8) |
      mem_pack.app_reset_lsb) + 1) & 0x0FFF)) + 1) & 0x0FFF) | 0xC000);\<close>
  The result is stored in a \<open>uint16_t\<close> and every operand is masked to 16 bits or less, so
  the arithmetic is carried out on 16-bit words. \<open>TIMONEL_START\<close> is a build-time
  constant (a natural number here); \<open>TIMONEL_START >> 1\<close> is its half.
\<close>

definition app_vec :: "u8 \<Rightarrow> u8 \<Rightarrow> u16" where
  "app_vec msb lsb = (push_bit 8 (ucast msb)) OR (ucast lsb)"

definition tpl_word :: "nat \<Rightarrow> u8 \<Rightarrow> u8 \<Rightarrow> u16" where
  "tpl_word timonel_start msb lsb =
     (((NOT (of_nat (timonel_start div 2) - ((app_vec msb lsb + 1) AND 0x0FFF)) + 1) AND 0x0FFF)
        OR 0xC000)"

section \<open>main\<close>

text \<open>
  The erase loop of the delete slow operation:
  \<^verbatim>\<open>uint16_t page_to_del = TIMONEL_START;
  while (page_to_del != RESET_PAGE) {
      page_to_del -= SPM_PAGESIZE;
      boot_page_erase(page_to_del);
  }\<close>
  \<open>page_to_del\<close> is a 16-bit counter that wraps around; whether the loop ever meets
  \<open>RESET_PAGE\<close> depends on the constants, so the loop is a partial function and \<open>None\<close>
  stands for a loop that never ends.
\<close>

partial_function (option) erase_loop :: "config \<Rightarrow> u16 \<Rightarrow> state \<Rightarrow> state option" where
  "erase_loop cfg page_to_del s =
     (if page_to_del \<noteq> of_nat (RESET_PAGE cfg) then
        let p = page_to_del - of_nat (SPM_PAGESIZE cfg)
        in erase_loop cfg p (boot_page_erase p s)
      else Some s)"

declare erase_loop.simps [code]

text \<open>
  \<open>for (int i = 0; i < SPM_PAGESIZE - 2; i += 2) boot_page_fill((TIMONEL_START - SPM_PAGESIZE) + i, 0xFFFF);\<close>
\<close>

function tpl_page_blank :: "config \<Rightarrow> nat \<Rightarrow> state \<Rightarrow> state" where
  "tpl_page_blank cfg i s =
     (if int i < int (SPM_PAGESIZE cfg) - 2 then
        tpl_page_blank cfg (i + 2)
          (boot_page_fill (of_nat (TIMONEL_START cfg) - of_nat (SPM_PAGESIZE cfg) + of_nat i)
             0xFFFF s)
      else s)"
  by pat_completeness auto
termination
  by (relation "measure (\<lambda>(cfg, i, s). SPM_PAGESIZE cfg - i)") auto

text \<open>
  The read-back loop of \<open>APP_USE_TPL_PG\<close>: each word of the trampoline page but the last
  is read from flash, low byte first, and put into the temporary page buffer. Its index
  is a \<open>uint8_t\<close>; the source refuses to compile with \<open>SPM_PAGESIZE > 64\<close>.
\<close>

definition flash_word :: "(u16 \<Rightarrow> u8) \<Rightarrow> u16 \<Rightarrow> u16" where
  "flash_word fl a = ucast (fl a) + push_bit 8 (ucast (fl (a + 1)))"

function tpl_page_copy :: "config \<Rightarrow> inputs \<Rightarrow> nat \<Rightarrow> state \<Rightarrow> state" where
  "tpl_page_copy cfg inp i s =
     (if int i < int (SPM_PAGESIZE cfg) - 2 then
        let mem_position = (of_nat (TIMONEL_START cfg) - of_nat (SPM_PAGESIZE cfg) + of_nat i :: u16);
            page_data = flash_word (in_flash inp) mem_position
        in tpl_page_copy cfg inp (i + 2)
             (boot_page_fill (of_nat (TIMONEL_START cfg) - of_nat (SPM_PAGESIZE cfg) + of_nat i)
                page_data s)
      else s)"
  by pat_completeness auto
termination
  by (relation "measure (\<lambda>(cfg, inp, i, s). SPM_PAGESIZE cfg - i)") auto

definition tpl :: "config \<Rightarrow> MemPack \<Rightarrow> u16" where
  "tpl cfg mp = tpl_word (TIMONEL_START cfg) (app_reset_msb mp) (app_reset_lsb mp)"

text \<open>
  The page-write slow operation: the \<open>if\<close> on \<open>page_ix == SPM_PAGESIZE\<close> with everything
  in it. The comparisons of \<open>page_addr\<close> with the constants are unsigned 16-bit.
\<close>

definition write_page :: "config \<Rightarrow> inputs \<Rightarrow> state \<Rightarrow> state" where
  "write_page cfg inp s =
     (let mp = mem_pack s;
          limit = (if APP_USE_TPL_PG cfg \<or> \<not> AUTO_PAGE_ADDR cfg
                   then of_nat (TIMONEL_START cfg)
                   else of_nat (TIMONEL_START cfg) - of_nat (SPM_PAGESIZE cfg) :: u16)
      in if unat (page_ix mp) = SPM_PAGESIZE cfg \<and> page_addr mp < limit then
           let s1 = (if FORCE_ERASE_PG cfg then boot_page_erase (page_addr mp) s else s);
               s2 = boot_page_write (page_addr mp) s1;
               s6 = (if AUTO_PAGE_ADDR cfg then
                       let s3 = (if page_addr mp = of_nat (RESET_PAGE cfg) then
                                   boot_page_write
                                     (of_nat (TIMONEL_START cfg) - of_nat (SPM_PAGESIZE cfg))
                                     (boot_page_fill (of_nat (TIMONEL_START cfg) - 2) (tpl cfg mp)
                                        (tpl_page_blank cfg 0 s2))
                                 else s2);
                           s5 = (if APP_USE_TPL_PG cfg \<and>
                                    page_addr mp = of_nat (TIMONEL_START cfg) - of_nat (SPM_PAGESIZE cfg)
                                 then
                                   let s4 = tpl_page_copy cfg inp 0 s3;
                                       page_data = flash_word (in_flash inp)
                                                     (of_nat (TIMONEL_START cfg) - 2)
                                   in if page_data \<noteq> tpl cfg mp
                                      then s4\<lparr>mem_pack := raise_flag (FL_DEL_FLASH cfg) (mem_pack s4)\<rparr>
                                      else s4
                                 else s3)
                       in s5\<lparr>mem_pack := (mem_pack s5)
                              \<lparr>page_addr := page_addr (mem_pack s5) + of_nat (SPM_PAGESIZE cfg)\<rparr>\<rparr>
                     else s2)
           in s6\<lparr>mem_pack := (mem_pack s6)\<lparr>page_ix := 0\<rparr>\<rparr>
         else s)"

text \<open>
  The body of \<open>if (slow_ops_enabled == true)\<close> after the flag has been cleared.
  \<open>RunApplication()\<close> and \<open>RestartTimonel()\<close> are calls through function pointers into
  the application and to the start of the bootloader; with \<open>USE_WDT_RESET\<close> the program
  arms the watchdog and idles until the reset. None of them comes back.
\<close>

definition leave :: "target \<Rightarrow> state \<Rightarrow> unit outcome" where
  "leave t s = Jumps t (emit (Jumped t) s)"

definition slow_ops :: "config \<Rightarrow> inputs \<Rightarrow> state \<Rightarrow> unit outcome" where
  "slow_ops cfg inp s =
     (if flag_set (flags (mem_pack s)) (FL_EXIT_TML cfg) then leave To_Application s
      else if flag_set (flags (mem_pack s)) (FL_DEL_FLASH cfg) then
        (case erase_loop cfg (of_nat (TIMONEL_START cfg)) s of
           None \<Rightarrow> Spins s
         | Some s1 \<Rightarrow>
             leave (if USE_WDT_RESET cfg then Watchdog_Reset else To_Timonel_Start) s1)
      else Returns () (write_page cfg inp s))"

text \<open>The \<open>else\<close> branch: blink and time out while the bootloader is not initialized.\<close>

definition not_initialized :: "config \<Rightarrow> state \<Rightarrow> unit outcome" where
  "not_initialized cfg s =
     (let d = led_delay s;
          s1 = s\<lparr>led_delay := d - 1\<rparr>
      in if d = 0 then
           (if TIMEOUT_EXIT cfg then
              let e = exit_delay s1;
                  s2 = s1\<lparr>exit_delay := e - 1\<rparr>
              in if e = 0 then leave To_Application s2 else Returns () s2
            else Returns () s1)
         else Returns () s1)"

definition initialized :: "config \<Rightarrow> MemPack \<Rightarrow> bool" where
  "initialized cfg mp =
     (if \<not> TWO_STEP_INIT cfg then flag_set (flags mp) (FL_INIT_1 cfg)
      else flag_set (flags mp) (FL_INIT_1 cfg) \<and> flag_set (flags mp) (FL_INIT_2 cfg))"

text \<open>One pass through the body of \<open>for (;;)\<close>.\<close>

definition main_loop_body :: "config \<Rightarrow> inputs \<Rightarrow> state \<Rightarrow> unit outcome" where
  "main_loop_body cfg inp s =
     and_then
       (if flag_set (in_USISR_start inp) TWI_START_COND_FLAG \<and>
           flag_set (USICR s) TWI_START_COND_INT
        then TwiStartHandler inp s else Returns () s)
       (\<lambda>u s1.
          and_then
            (if flag_set (in_USISR_overflow inp) USI_OVERFLOW_FLAG \<and>
                flag_set (USICR s1) USI_OVERFLOW_INT
             then and_then
                    (UsiOverflowHandler cfg inp (emit Overflow_Enter (s1\<lparr>USIDR := in_USIDR inp\<rparr>)))
                    (\<lambda>b s2. Returns () (emit (Overflow_Return b) (s2\<lparr>slow_ops_enabled := b\<rparr>)))
             else Returns () s1)
            (\<lambda>u s2.
               if initialized cfg (mem_pack s2) then
                 (if slow_ops_enabled s2
                  then slow_ops cfg inp (emit Slow_Ops_Consumed (s2\<lparr>slow_ops_enabled := False\<rparr>))
                  else Returns () s2)
               else not_initialized cfg s2))"

text \<open>
  The machine when \<open>main\<close> is entered: the C start-up code has zeroed the driver globals
  and the static \<open>command\<close> array (\<open>MST_PACKET_SIZE * 2\<close> bytes). At power-on the registers
  hold their reset value 0 and nothing has been recorded; after a jump to the start of
  the bootloader the registers and the trace are as the jump left them.
\<close>

definition c_startup :: "config \<Rightarrow> state \<Rightarrow> state" where
  "c_startup cfg s =
     s\<lparr>rx_buffer := replicate (TWI_RX_BUFFER_SIZE cfg) 0,
       tx_buffer := replicate (TWI_TX_BUFFER_SIZE cfg) 0,
       rx_byte_count := 0, rx_head := 0, rx_tail := 0, tx_head := 0, tx_tail := 0,
       device_state := STATE_CHECK_RECEIVED_ADDRESS,
       command := replicate (MST_PACKET_SIZE cfg * 2) 0\<rparr>"

definition power_on :: "config \<Rightarrow> state" where
  "power_on cfg =
     c_startup cfg
       \<lparr>rx_buffer = [], tx_buffer = [], rx_byte_count = 0, rx_head = 0, rx_tail = 0,
        tx_head = 0, tx_tail = 0, device_state = STATE_CHECK_RECEIVED_ADDRESS, command = [],
        USIDR = 0, USISR = 0, USICR = 0, DDR_USI = 0, PORT_USI = 0,
        mem_pack = \<lparr>page_addr = 0, page_ix = 0, flags = 0, app_reset_lsb = 0, app_reset_msb = 0\<rparr>,
        slow_ops_enabled = False, led_delay = 0, exit_delay = 0, trace = []\<rparr>"

text \<open>The setup block of \<open>main\<close>, up to the \<open>for (;;)\<close>.\<close>

definition main_setup :: "config \<Rightarrow> state \<Rightarrow> state" where
  "main_setup cfg s =
     (let s1 = s\<lparr>exit_delay := SHORT_EXIT_DLY cfg, led_delay := SHORT_LED_DLY cfg\<rparr>;
          s2 = UsiTwiDriverInit s1;
          s3 = emit Buffer_Clear s2
      in s3\<lparr>slow_ops_enabled := False,
            mem_pack := \<lparr>page_addr = 0x0000, page_ix = 0, flags = 0,
                         app_reset_lsb = 0x00, app_reset_msb = 0x00\<rparr>\<rparr>)"

text \<open>
  The main loop over the inputs of its first iterations. The loop itself never ends; the
  result for a finite list of inputs is the outcome of the iteration that does not
  return, or the state at the head of the loop once the list is used up. A jump to the
  start of the bootloader, or a watchdog reset, enters \<open>main\<close> again.
\<close>

fun main_loop :: "config \<Rightarrow> inputs list \<Rightarrow> state \<Rightarrow> unit outcome" where
  "main_loop cfg [] s = Returns () s"
| "main_loop cfg (inp # inps) s =
     (case main_loop_body cfg inp s of
        Returns u s' \<Rightarrow> main_loop cfg inps s'
      | Spins s' \<Rightarrow> Spins s'
      | Jumps To_Application s' \<Rightarrow> Jumps To_Application s'
      | Jumps To_Timonel_Start s' \<Rightarrow> main_loop cfg inps (main_setup cfg (c_startup cfg s'))
      | Jumps Watchdog_Reset s' \<Rightarrow>
          main_loop cfg inps (main_setup cfg ((power_on cfg)\<lparr>trace := trace s'\<rparr>))
      | Undefined s' \<Rightarrow> Undefined s')"

definition main :: "config \<Rightarrow> inputs list \<Rightarrow> unit outcome" where
  "main cfg inps = main_loop cfg inps (main_setup cfg (power_on cfg))"

section \<open>The driver of nb-usitwisl-if3.h\<close>

text \<open>
  The stand-alone driver header keeps a byte count for each ring and stores before it
  advances the head. Its globals and registers are the fields of \<open>driver_if3\<close>; the
  functions carry the suffix \<open>_if3\<close> where \<open>timonel.c\<close> has one of the same name.
  \<open>TWI_RX_BUFFER_SIZE\<close>, \<open>TWI_TX_BUFFER_SIZE\<close> and \<open>TWI_ADDR\<close> are taken from the
  configuration.
\<close>

datatype OperationalState =
    STATE_CHECK_ADDRESS
  | STATE_SEND_DATA
  | STATE_WAIT_ACK_AFTER_SEND_DATA
  | STATE_CHECK_ACK_AFTER_SEND_DATA
  | STATE_WAIT_DATA_RECEPTION
  | STATE_RECEIVE_DATA_AND_SEND_ACK

record driver_if3 =
  d_device_state :: OperationalState
  d_rx_buffer :: "u8 list"
  d_rx_head :: u8
  d_rx_tail :: u8
  rx_count :: u8
  d_tx_buffer :: "u8 list"
  d_tx_head :: u8
  d_tx_tail :: u8
  tx_count :: u8
  d_USIDR :: u8
  d_USISR :: u8
  d_USICR :: u8
  d_DDR_USI :: u8

text \<open>
  \<^verbatim>\<open>while (tx_count++ == TWI_TX_BUFFER_SIZE) {};
  tx_buffer[tx_head] = data_byte;
  tx_head = (tx_head + 1) & TWI_TX_BUFFER_MASK;\<close>
  The test increments the counter each time it runs: from \<open>TWI_TX_BUFFER_SIZE\<close> it takes
  a second test and leaves with the counter two higher; from any other value it leaves
  at once. The wait therefore always ends.
\<close>

definition UsiTwiTransmitByte_if3 :: "config \<Rightarrow> u8 \<Rightarrow> driver_if3 \<Rightarrow> driver_if3" where
  "UsiTwiTransmitByte_if3 cfg data_byte d =
     (let c = tx_count d;
          d1 = d\<lparr>tx_count := (if unat c = TWI_TX_BUFFER_SIZE cfg then c + 2 else c + 1)\<rparr>;
          d2 = d1\<lparr>d_tx_buffer := (d_tx_buffer d1)[unat (d_tx_head d1) := data_byte]\<rparr>
      in d2\<lparr>d_tx_head := next_ix (d_tx_head d2) (TWI_TX_BUFFER_MASK cfg)\<rparr>)"

text \<open>
  \<^verbatim>\<open>while (!rx_count--) {};
  received_byte = rx_buffer[rx_tail];
  rx_tail = (rx_tail + 1) & TWI_RX_BUFFER_MASK;
  return received_byte;\<close>
\<close>

definition UsiTwiReceiveByte_if3 :: "config \<Rightarrow> driver_if3 \<Rightarrow> u8 \<times> driver_if3" where
  "UsiTwiReceiveByte_if3 cfg d =
     (let c = rx_count d;
          d1 = d\<lparr>rx_count := (if c = 0 then c - 2 else c - 1)\<rparr>;
          received_byte = d_rx_buffer d1 ! unat (d_rx_tail d1)
      in (received_byte, d1\<lparr>d_rx_tail := next_ix (d_rx_tail d1) (TWI_RX_BUFFER_MASK cfg)\<rparr>))"

definition SET_USI_SDA_AS_OUTPUT_if3 :: "driver_if3 \<Rightarrow> driver_if3" where
  "SET_USI_SDA_AS_OUTPUT_if3 d = d\<lparr>d_DDR_USI := d_DDR_USI d OR push_bit PORT_USI_SDA 1\<rparr>"

definition SET_USI_SDA_AS_INPUT_if3 :: "driver_if3 \<Rightarrow> driver_if3" where
  "SET_USI_SDA_AS_INPUT_if3 d = d\<lparr>d_DDR_USI := d_DDR_USI d AND NOT (push_bit PORT_USI_SDA 1)\<rparr>"

definition SET_USI_TO_SEND_ACK_if3 :: "driver_if3 \<Rightarrow> driver_if3" where
  "SET_USI_TO_SEND_ACK_if3 d =
     (SET_USI_SDA_AS_OUTPUT_if3 (d\<lparr>d_USIDR := 0\<rparr>))
       \<lparr>d_USISR := push_bit TWI_START_COND_FLAG 0 OR push_bit USI_OVERFLOW_FLAG 1 OR
                   push_bit TWI_STOP_COND_FLAG 1 OR push_bit TWI_COLLISION_FLAG 1 OR
                   push_bit USICNT0 0x0E\<rparr>"

definition SET_USI_TO_WAIT_ACK :: "driver_if3 \<Rightarrow> driver_if3" where
  "SET_USI_TO_WAIT_ACK d =
     (SET_USI_SDA_AS_INPUT_if3 (d\<lparr>d_USIDR := 0\<rparr>))
       \<lparr>d_USISR := push_bit TWI_START_COND_FLAG 0 OR push_bit USI_OVERFLOW_FLAG 1 OR
                   push_bit TWI_STOP_COND_FLAG 1 OR push_bit TWI_COLLISION_FLAG 1 OR
                   push_bit USICNT0 0x0E\<rparr>"

definition SET_USI_TO_WAIT_FOR_START_COND_AND_ADDRESS :: "driver_if3 \<Rightarrow> driver_if3" where
  "SET_USI_TO_WAIT_FOR_START_COND_AND_ADDRESS d =
     d\<lparr>d_USICR := push_bit TWI_START_COND_INT 1 OR push_bit USI_OVERFLOW_INT 0 OR
                   push_bit USIWM1 1 OR push_bit USIWM0 0 OR
                   push_bit USICS1 1 OR push_bit USICS0 0 OR push_bit USICLK 0 OR
                   push_bit USITC 0,
       d_USISR := push_bit TWI_START_COND_FLAG 0 OR push_bit USI_OVERFLOW_FLAG 1 OR
                   push_bit TWI_STOP_COND_FLAG 1 OR push_bit TWI_COLLISION_FLAG 1 OR
                   push_bit USICNT0 0x0\<rparr>"

definition SET_USI_TO_SEND_DATA :: "driver_if3 \<Rightarrow> driver_if3" where
  "SET_USI_TO_SEND_DATA d =
     (SET_USI_SDA_AS_OUTPUT_if3 d)
       \<lparr>d_USISR := push_bit TWI_START_COND_FLAG 0 OR push_bit USI_OVERFLOW_FLAG 1 OR
                   push_bit TWI_STOP_COND_FLAG 1 OR push_bit TWI_COLLISION_FLAG 1 OR
                   push_bit USICNT0 0x0\<rparr>"

definition SET_USI_TO_RECEIVE_DATA :: "driver_if3 \<Rightarrow> driver_if3" where
  "SET_USI_TO_RECEIVE_DATA d =
     (SET_USI_SDA_AS_INPUT_if3 d)
       \<lparr>d_USISR := push_bit TWI_START_COND_FLAG 0 OR push_bit USI_OVERFLOW_FLAG 1 OR
                   push_bit TWI_STOP_COND_FLAG 1 OR push_bit TWI_COLLISION_FLAG 1 OR
                   push_bit USICNT0 0x0\<rparr>"

text \<open>
  \<open>UsiOverflowHandler\<close> of the header. \<open>ReceiveEvent\<close> and \<open>RequestEvent\<close> are only
  declared there: \<open>requested\<close> stands for what \<open>DATA_REQUESTED_BY_MASTER_CALLBACK\<close> does
  to the driver through them. A \<open>case\<close> that ends in \<open>break\<close> reaches the statement after
  the \<open>switch\<close>, \<open>USISR |= (1 << USI_OVERFLOW_FLAG)\<close>, which reads the status register:
  \<open>usisr\<close> is the value read.
\<close>

definition after_switch :: "u8 \<Rightarrow> driver_if3 \<Rightarrow> bool \<times> driver_if3" where
  "after_switch usisr d = (False, d\<lparr>d_USISR := usisr OR push_bit USI_OVERFLOW_FLAG 1\<rparr>)"

definition STATE_SEND_DATA_case :: "config \<Rightarrow> u8 \<Rightarrow> driver_if3 \<Rightarrow> bool \<times> driver_if3" where
  "STATE_SEND_DATA_case cfg usisr d =
     (let c = tx_count d;
          d1 = d\<lparr>tx_count := c - 1\<rparr>
      in if c \<noteq> 0 then
           let d2 = d1\<lparr>d_USIDR := d_tx_buffer d1 ! unat (d_tx_tail d1)\<rparr>;
               d3 = d2\<lparr>d_tx_tail := next_ix (d_tx_tail d2) (TWI_TX_BUFFER_MASK cfg)\<rparr>;
               d4 = d3\<lparr>d_device_state := STATE_WAIT_ACK_AFTER_SEND_DATA\<rparr>
           in after_switch usisr (SET_USI_TO_SEND_DATA d4)
         else (False, SET_USI_TO_WAIT_FOR_START_COND_AND_ADDRESS (SET_USI_TO_WAIT_ACK d1)))"

definition UsiOverflowHandler_if3 ::
    "config \<Rightarrow> (driver_if3 \<Rightarrow> driver_if3) \<Rightarrow> u8 \<Rightarrow> driver_if3 \<Rightarrow> bool \<times> driver_if3" where
  "UsiOverflowHandler_if3 cfg requested usisr d =
     (case d_device_state d of
        STATE_CHECK_ADDRESS \<Rightarrow>
          if d_USIDR d = 0 \<or> unat (drop_bit 1 (d_USIDR d)) = TWI_ADDR cfg then
            if d_USIDR d AND 0x01 \<noteq> 0 then
              after_switch usisr
                (SET_USI_TO_SEND_ACK_if3 ((requested d)\<lparr>d_device_state := STATE_SEND_DATA\<rparr>))
            else
              after_switch usisr
                (SET_USI_TO_SEND_ACK_if3 (d\<lparr>d_device_state := STATE_WAIT_DATA_RECEPTION\<rparr>))
          else after_switch usisr (SET_USI_TO_WAIT_FOR_START_COND_AND_ADDRESS d)
      | STATE_CHECK_ACK_AFTER_SEND_DATA \<Rightarrow>
          if d_USIDR d \<noteq> 0 then (True, SET_USI_TO_WAIT_FOR_START_COND_AND_ADDRESS d)
          else STATE_SEND_DATA_case cfg usisr d
      | STATE_SEND_DATA \<Rightarrow> STATE_SEND_DATA_case cfg usisr d
      | STATE_WAIT_ACK_AFTER_SEND_DATA \<Rightarrow>
          after_switch usisr
            (SET_USI_TO_WAIT_ACK (d\<lparr>d_device_state := STATE_CHECK_ACK_AFTER_SEND_DATA\<rparr>))
      | STATE_WAIT_DATA_RECEPTION \<Rightarrow>
          after_switch usisr
            (SET_USI_TO_RECEIVE_DATA (d\<lparr>d_device_state := STATE_RECEIVE_DATA_AND_SEND_ACK\<rparr>))
      | STATE_RECEIVE_DATA_AND_SEND_ACK \<Rightarrow>
          let c = rx_count d;
              d1 = d\<lparr>rx_count := c + 1\<rparr>;
              d3 = (if unat c < TWI_RX_BUFFER_SIZE cfg then
                      let d2 = d1\<lparr>d_rx_buffer := (d_rx_buffer d1)[unat (d_rx_head d1) := d_USIDR d1]\<rparr>
                      in d2\<lparr>d_rx_head := next_ix (d_rx_head d2) (TWI_RX_BUFFER_MASK cfg)\<rparr>
                    else d1);
              d4 = d3\<lparr>d_device_state := STATE_WAIT_DATA_RECEPTION\<rparr>
          in after_switch usisr (SET_USI_TO_SEND_ACK_if3 d4))"

section \<open>Reference values and closed forms\<close>

text \<open>
  An example build, used where a statement is evaluated on concrete data: an ATtiny85
  with the bootloader at \<open>0x1A00\<close>, 64-byte pages, 8-byte packets and 16-byte rings. The
  codes are those of the Timonel command set; no theorem depends on their values.
\<close>

definition example_codes :: codes where
  "example_codes =
     \<lparr>GETTMNLV = 0x82, EXITTMNL = 0x86, DELFLASH = 0x83, STPGADDR = 0x84, WRITPAGE = 0x85,
      READFLSH = 0x87, INITSOFT = 0x81,
      ACKTMNLV = 0x7D, ACKEXITT = 0x79, ACKDELFL = 0x7C, AKPGADDR = 0x7B, ACKWTPAG = 0x7A,
      ACKRDFSH = 0x78, ACKINITS = 0x7E,
      ID_CHAR_3 = 0x54, TML_FEATURES = 0, TML_EXT_FEATURES = 0\<rparr>"

definition example_config :: config where
  "example_config =
     \<lparr>TWI_ADDR = 11, SPM_PAGESIZE = 64, TIMONEL_START = 0x1A00, RESET_PAGE = 0,
      MST_PACKET_SIZE = 8, TWI_RX_BUFFER_SIZE = 16, TWI_TX_BUFFER_SIZE = 16,
      FL_INIT_1 = 0, FL_INIT_2 = 1, FL_DEL_FLASH = 2, FL_EXIT_TML = 3,
      SHORT_EXIT_DLY = 0x0A, SHORT_LED_DLY = 0xFFFF,
      AUTO_PAGE_ADDR = True, CMD_SETPGADDR = False, CMD_READFLASH = False,
      TWO_STEP_INIT = False, APP_USE_TPL_PG = False, CHECK_PAGE_IX = True,
      FORCE_ERASE_PG = False, USE_WDT_RESET = False, TIMEOUT_EXIT = True,
      cmd = example_codes\<rparr>"

text \<open>The state at the head of the main loop after power-on, and two WRITPAGE frames
  for it: one with the right checksum, one with a corrupt trailing byte.\<close>

definition example_state :: state where
  "example_state = main_setup example_config (power_on example_config)"

definition example_WRITPAGE :: "u8 list" where
  "example_WRITPAGE = [0x85, 0x0E, 0xC0, 0x1D, 0xC0, 0x1C, 0xC0, 0x1B, 0xC0, 0x62, 0, 0, 0, 0, 0, 0]"




text \<open>
  Closed forms of the fill loop of \<open>Reply_WRITPAGE\<close> started at index \<open>i\<close> and running
  \<open>n\<close> times: the word filled from \<open>command[i]\<close> and \<open>command[i + 1]\<close>, the list of fill
  calls, and the sum added to the checksum.
\<close>

definition data_word :: "u8 list \<Rightarrow> nat \<Rightarrow> u16" where
  "data_word cmnd i = push_bit 8 (ucast (cmnd ! (i + 1))) OR ucast (cmnd ! i)"

definition loop_fills :: "u8 list \<Rightarrow> u16 \<Rightarrow> u8 \<Rightarrow> nat \<Rightarrow> nat \<Rightarrow> event list" where
  "loop_fills cmnd pa ix i n =
     map (\<lambda>j. Page_Fill (pa + ucast (ix + of_nat (2 * j))) (data_word cmnd (i + 2 * j))) [0..<n]"

definition loop_sum :: "u8 list \<Rightarrow> nat \<Rightarrow> nat \<Rightarrow> u8" where
  "loop_sum cmnd i n = sum_list (map (\<lambda>j. cmnd ! (i + 2 * j + 1) + cmnd ! (i + 2 * j)) [0..<n])"

text \<open>
  The pages the erase loop visits when it starts \<open>k\<close> pages above address 0: page
  \<open>k - 1\<close> first, page 0 last.
\<close>

definition erased_pages :: "config \<Rightarrow> nat \<Rightarrow> u16 list" where
  "erased_pages cfg k = map (\<lambda>j. of_nat (j * SPM_PAGESIZE cfg)) (rev [0..<k])"

text \<open>Inputs of an iteration during which the bus is idle and the flash is blank.\<close>

definition quiet_inputs :: inputs where
  "quiet_inputs =
     \<lparr>in_USISR_start = 0, in_USISR_overflow = 0, in_USIDR = 0, in_PIN_USI = [],
      in_flash = (\<lambda>a. 0xFF), in_low_fuse = 0x62, in_OSCCAL = 0\<rparr>"

text \<open>The example state with a pending delete request.\<close>

definition delete_requested :: state where
  "delete_requested = example_state\<lparr>mem_pack := raise_flag 2 (mem_pack example_state)\<rparr>"

text \<open>
  Two drivers whose 16-byte RX ring holds 16 unread bytes, the oldest being 1, with the
  byte \<open>0xAA\<close> waiting in the data register: the one of \<open>timonel.c\<close> (slot 1 is the
  next to be read) and the one of \<open>nb-usitwisl-if3.h\<close>.
\<close>

definition full_rx_ring :: state where
  "full_rx_ring =
     example_state\<lparr>rx_buffer := [16, 1, 2, 3, 4, 5, 6, 7, 8, 9, 10, 11, 12, 13, 14, 15],
                   rx_byte_count := 16, rx_head := 0, rx_tail := 0,
                   device_state := STATE_PUT_BYTE_IN_RX_BUFFER_AND_SEND_ACK,
                   USIDR := 0xAA\<rparr>"

definition full_rx_ring_if3 :: driver_if3 where
  "full_rx_ring_if3 =
     \<lparr>d_device_state = STATE_RECEIVE_DATA_AND_SEND_ACK,
      d_rx_buffer = [1, 2, 3, 4, 5, 6, 7, 8, 9, 10, 11, 12, 13, 14, 15, 16],
      d_rx_head = 0, d_rx_tail = 0, rx_count = 16,
      d_tx_buffer = replicate 16 0, d_tx_head = 0, d_tx_tail = 0, tx_count = 0,
      d_USIDR = 0xAA, d_USISR = 0, d_USICR = 0xF8, d_DDR_USI = 0\<rparr>"

section \<open>The slow-operation discipline\<close>

text \<open>
  The discipline of the main loop as a monitor over the trace. The monitor is in one of
  four phases: \<open>Polling\<close> (no permission), \<open>In_Handler\<close> (between the call of
  \<open>UsiOverflowHandler\<close> and its return), \<open>Permitted\<close> (the handler has returned \<open>true\<close>
  and the flag has not been consumed) and \<open>Slow_Section\<close> (the flag has been consumed and
  the handler has not been called since). It refuses an erase or a write outside
  \<open>Slow_Section\<close>, a consumption outside \<open>Permitted\<close> and a return without a call. A trace
  is \<open>deferred\<close> when the monitor, started in \<open>Polling\<close>, accepts all of it.
\<close>

datatype phase = Polling | In_Handler | Permitted | Slow_Section

fun monitor :: "phase \<Rightarrow> event \<Rightarrow> phase option" where
  "monitor p (Page_Fill a w) = Some p"
| "monitor p Buffer_Clear = Some p"
| "monitor p (Page_Erase a) = (if p = Slow_Section then Some Slow_Section else None)"
| "monitor p (Page_Write a) = (if p = Slow_Section then Some Slow_Section else None)"
| "monitor p Overflow_Enter = (if p = In_Handler then None else Some In_Handler)"
| "monitor p (Overflow_Return b) =
     (if p = In_Handler then Some (if b then Permitted else Polling) else None)"
| "monitor p Slow_Ops_Consumed = (if p = Permitted then Some Slow_Section else None)"
| "monitor p (Jumped t) = (if p = In_Handler then None else Some Polling)"

fun run :: "phase \<Rightarrow> event list \<Rightarrow> phase option" where
  "run p [] = Some p"
| "run p (e # es) = (case monitor p e of None \<Rightarrow> None | Some q \<Rightarrow> run q es)"

definition deferred :: "event list \<Rightarrow> bool" where
  "deferred tr = (run Polling tr \<noteq> None)"

text \<open>
  Predicates used in the proofs: kinds of events, what a call may add to the trace, what
  holds at the head of the main loop, and what holds however a call ends.
\<close>

definition is_fill :: "event \<Rightarrow> bool" where
  "is_fill e = (case e of Page_Fill a w \<Rightarrow> True | _ \<Rightarrow> False)"

definition only_fills :: "state \<Rightarrow> state \<Rightarrow> bool" where
  "only_fills s s' = (\<exists>fs. trace s' = trace s @ fs \<and> (\<forall>e \<in> set fs. is_fill e))"

definition stays_with :: "(state \<Rightarrow> bool) \<Rightarrow> 'r outcome \<Rightarrow> bool" where
  "stays_with P x =
     (case x of Returns r s \<Rightarrow> P s | Spins s \<Rightarrow> P s | Jumps t s \<Rightarrow> False
      | Undefined s \<Rightarrow> P s)"

definition loop_inv :: "state \<Rightarrow> bool" where
  "loop_inv s =
     (\<exists>p. run Polling (trace s) = Some p \<and> p \<noteq> In_Handler \<and>
          (slow_ops_enabled s \<longrightarrow> p = Permitted))"

definition outcome_ok :: "('r \<Rightarrow> state \<Rightarrow> bool) \<Rightarrow> 'r outcome \<Rightarrow> bool" where
  "outcome_ok R x =
     (case x of
        Returns r s \<Rightarrow> R r s
      | Spins s \<Rightarrow> deferred (trace s)
      | Jumps t s \<Rightarrow> run Polling (trace s) = Some Polling
      | Undefined s \<Rightarrow> deferred (trace s))"

definition iteration_ok :: "unit outcome \<Rightarrow> bool" where
  "iteration_ok x = outcome_ok (\<lambda>u. loop_inv) x"

definition is_spm :: "event \<Rightarrow> bool" where
  "is_spm e = (case e of Page_Fill a w \<Rightarrow> True | Page_Erase a \<Rightarrow> True | Page_Write a \<Rightarrow> True
               | _ \<Rightarrow> False)"

definition is_buffer_op :: "event \<Rightarrow> bool" where
  "is_buffer_op e = (case e of Page_Fill a w \<Rightarrow> True | Buffer_Clear \<Rightarrow> True | _ \<Rightarrow> False)"

definition is_flash_op :: "event \<Rightarrow> bool" where
  "is_flash_op e = (case e of Page_Fill a w \<Rightarrow> True | Buffer_Clear \<Rightarrow> True
                    | Page_Erase a \<Rightarrow> True | Page_Write a \<Rightarrow> True | _ \<Rightarrow> False)"

definition only_spm :: "state \<Rightarrow> state \<Rightarrow> bool" where
  "only_spm s s' = (\<exists>es. trace s' = trace s @ es \<and> (\<forall>e \<in> set es. is_spm e) \<and>
                        slow_ops_enabled s' = slow_ops_enabled s)"

text \<open>Inputs for bus activity: a start condition, and a counter overflow with a byte
  in the data register.\<close>

definition bus_start :: inputs where
  "bus_start = quiet_inputs\<lparr>in_USISR_start := 0x80, in_PIN_USI := [0x00]\<rparr>"

definition bus_byte :: "u8 \<Rightarrow> inputs" where
  "bus_byte b = quiet_inputs\<lparr>in_USISR_overflow := 0x40, in_USIDR := b\<rparr>"

text \<open>
  A bus session that ends in a delete: the master writes \<open>GETTMNLV\<close> to address 11 and
  reads one byte of the reply before it stops the transfer with a NACK, then does the same
  with \<open>DELFLASH\<close>. Each transaction takes two start conditions and seven counter
  overflows; \<open>transaction_events\<close> is what one of them adds to the trace.
\<close>

definition erase_session :: "inputs list" where
  "erase_session =
     [bus_start, bus_byte 0x16, bus_byte 0, bus_byte 0x82,
      bus_start, bus_byte 0x17, bus_byte 0, bus_byte 0, bus_byte 1,
      bus_start, bus_byte 0x16, bus_byte 0, bus_byte 0x83,
      bus_start, bus_byte 0x17, bus_byte 0, bus_byte 0, bus_byte 1]"

definition transaction_events :: "event list" where
  "transaction_events =
     [Overflow_Enter, Overflow_Return False, Overflow_Enter, Overflow_Return False,
      Overflow_Enter, Overflow_Return False, Overflow_Enter, Overflow_Return False,
      Overflow_Enter, Overflow_Return False, Overflow_Enter, Overflow_Return False,
      Overflow_Enter, Overflow_Return True, Slow_Ops_Consumed]"

section \<open>Flags\<close>


lemma raise_flag_simps [simp]:
  "page_addr (raise_flag n mp) = page_addr mp"
  "page_ix (raise_flag n mp) = page_ix mp"
  "app_reset_lsb (raise_flag n mp) = app_reset_lsb mp"
  "app_reset_msb (raise_flag n mp) = app_reset_msb mp"
  by (simp_all add: raise_flag_def)


declare WRITPAGE_loop.simps [simp del]

section \<open>The fill loop of Reply_WRITPAGE\<close>

lemma loop_fills_Suc:
  "loop_fills cmnd pa ix i (Suc n) =
     Page_Fill (pa + ucast ix) (data_word cmnd i) # loop_fills cmnd pa (ix + 2) (i + 2) n"
  by (simp add: loop_fills_def map_upt_Suc add.assoc del: upt_Suc)

lemma loop_sum_Suc:
  "loop_sum cmnd i (Suc n) = (cmnd ! (i + 1) + cmnd ! i) + loop_sum cmnd (i + 2) n"
  by (simp add: loop_sum_def map_upt_Suc add.assoc del: upt_Suc)

lemma WRITPAGE_loop_eq:
  "WRITPAGE_loop cfg cmnd i chk s =
     (chk + loop_sum cmnd i ((MST_PACKET_SIZE cfg + 2 - i) div 2),
      s\<lparr>mem_pack := (mem_pack s)\<lparr>page_ix := page_ix (mem_pack s) +
                                         of_nat (2 * ((MST_PACKET_SIZE cfg + 2 - i) div 2))\<rparr>,
        trace := trace s @ loop_fills cmnd (page_addr (mem_pack s)) (page_ix (mem_pack s)) i
                             ((MST_PACKET_SIZE cfg + 2 - i) div 2)\<rparr>)"
proof (induction cfg cmnd i chk s rule: WRITPAGE_loop.induct)
  case (1 cfg cmnd i chk s)
  show ?case
  proof (cases "i < MST_PACKET_SIZE cfg + 1")
    case True
    then have n: "(MST_PACKET_SIZE cfg + 2 - i) div 2 = Suc ((MST_PACKET_SIZE cfg + 2 - (i + 2)) div 2)"
      by (simp add: Suc_diff_le)
    show ?thesis using True 1
      apply (subst WRITPAGE_loop.simps)
      apply (simp only: n loop_fills_Suc loop_sum_Suc)
      apply (simp add: Let_def boot_page_fill_def emit_def data_word_def add.assoc)
      done
  next
    case False
    then have n: "(MST_PACKET_SIZE cfg + 2 - i) div 2 = 0" by simp
    show ?thesis using False
      apply (subst WRITPAGE_loop.simps)
      apply (simp only: n)
      apply (simp add: loop_fills_def loop_sum_def)
      done
  qed
qed




lemma push_take_disjoint: "push_bit n a AND take_bit n b = (0 :: u16)"
  by (auto simp: bit_eq_iff bit_simps)

lemma jump_word_or:
  assumes "2 \<le> ts" and "ts \<le> 0x8000"
  shows "(0xC000 + (of_nat (ts div 2) - 1) :: u16) = 0xC000 OR (of_nat (ts div 2) - 1)"
proof -
  define m where "m = ts div 2 - 1"
  have m: "m < 2 ^ 14" and eq: "ts div 2 = Suc m"
    using assms by (auto simp: m_def)
  have w: "(of_nat (ts div 2) - 1 :: u16) = of_nat m"
    by (simp add: eq)
  have "(of_nat m :: u16) = take_bit 14 (of_nat m)"
    using m by (simp add: take_bit_of_nat take_bit_nat_eq_self)
  moreover have "(0xC000 :: u16) = push_bit 14 3"
    by simp
  ultimately have "(0xC000 :: u16) AND of_nat m = 0"
    using push_take_disjoint[of 14 3 "of_nat m"] by simp
  then show ?thesis
    unfolding w by (rule disjunctive_add_eq_or)
qed


lemma UsiTwiTransmitByte_keeps:
  "final (UsiTwiTransmitByte cfg b s) = Some s' \<Longrightarrow> mem_pack s' = mem_pack s \<and> trace s' = trace s"
  by (auto simp: UsiTwiTransmitByte_def Let_def split: if_splits)

lemma and_then_final:
  "final (and_then x k) = Some s' \<Longrightarrow>
     (\<exists>r s1. x = Returns r s1 \<and> final (k r s1) = Some s') \<or>
     ((\<forall>r s1. x \<noteq> Returns r s1) \<and> final x = Some s')"
  by (cases x) auto

lemma transmit_reply_keeps:
  "final (transmit_reply cfg bs s) = Some s' \<Longrightarrow> mem_pack s' = mem_pack s \<and> trace s' = trace s"
proof (induction bs arbitrary: s)
  case Nil
  then show ?case by simp
next
  case (Cons b bs)
  from Cons.prems show ?case
    apply simp
    apply (drule and_then_final)
    apply (erule disjE)
     apply clarsimp
     apply (frule Cons.IH)
    using UsiTwiTransmitByte_keeps[of cfg b s] apply force
    using UsiTwiTransmitByte_keeps[of cfg b s] apply force
    done
qed





lemma fill_addr_nonzero:
  assumes "pa + ucast ix = (0::u16)" and "0 < d" and "d < 256"
  shows "pa + ucast (ix + of_nat d :: u8) \<noteq> 0"
proof
  assume "pa + ucast (ix + of_nat d :: u8) = 0"
  with assms(1) have "pa + (ucast (ix + of_nat d :: u8) :: u16) = pa + ucast ix"
    by simp
  then have "(ucast (ix + of_nat d :: u8) :: u16) = ucast ix"
    by simp
  then have "unat (ucast (ix + of_nat d :: u8) :: u16) = unat (ucast ix :: u16)"
    by simp
  then have "unat (ix + of_nat d :: u8) = unat ix"
    by (simp add: unsigned_ucast_eq take_bit_nat_eq_self unsigned_less[THEN less_trans])
  then have "ix + of_nat d = ix"
    by (simp add: word_eq_iff_unsigned[where ?'a = nat])
  then have "(of_nat d :: u8) = 0"
    by simp
  then have "unat (of_nat d :: u8) = 0"
    by simp
  with assms(2,3) show False
    by (simp add: unat_of_nat)
qed

lemma loop_fills_addr:
  "e \<in> set (loop_fills cmnd pa ix i n) \<Longrightarrow>
     \<exists>j<n. e = Page_Fill (pa + ucast (ix + of_nat (2 * j))) (data_word cmnd (i + 2 * j))"
  by (auto simp: loop_fills_def)

lemma Reply_WRITPAGE_final:
  assumes "final (Reply_WRITPAGE cfg cmnd s) = Some s'"
  shows "mem_pack s' = mem_pack (snd (WRITPAGE_reply cfg cmnd s))"
    and "trace s' = trace (snd (WRITPAGE_reply cfg cmnd s))"
  using assms transmit_reply_keeps[of cfg "fst (WRITPAGE_reply cfg cmnd s)" "snd (WRITPAGE_reply cfg cmnd s)" s']
  by (simp_all add: Reply_WRITPAGE_def split: prod.splits)

lemma WRITPAGE_reset_branch:
  assumes "page_addr (mem_pack s) + ucast (page_ix (mem_pack s)) = of_nat (RESET_PAGE cfg)"
    and "AUTO_PAGE_ADDR cfg"
  shows "app_reset_lsb (mem_pack (snd (WRITPAGE_reply cfg cmnd s))) = cmnd ! 1"
    and "app_reset_msb (mem_pack (snd (WRITPAGE_reply cfg cmnd s))) = cmnd ! 2"
    and "trace (snd (WRITPAGE_reply cfg cmnd s)) =
           trace s @ Page_Fill (of_nat (RESET_PAGE cfg)) (0xC000 + (of_nat (TIMONEL_START cfg div 2) - 1)) #
             loop_fills cmnd (page_addr (mem_pack s)) (page_ix (mem_pack s) + 2) 3
               ((MST_PACKET_SIZE cfg + 2 - 3) div 2)"
  using assms
  by (simp_all add: WRITPAGE_reply_def WRITPAGE_loop_eq Let_def boot_page_fill_def emit_def
        split: prod.splits)

section \<open>The example build\<close>

lemma example_state_mem_pack:
  "mem_pack example_state =
     \<lparr>page_addr = 0, page_ix = 0, flags = 0, app_reset_lsb = 0, app_reset_msb = 0\<rparr>"
  by (simp add: example_state_def main_setup_def Let_def)


lemma and_then_weak_cong: "x = y \<Longrightarrow> and_then x k = and_then y k"
  by simp

lemma next_ix_15: "next_ix ix 15 = (ix + 1) AND 0x0F"
proof -
  have "next_ix ix 15 = of_nat (unat ix + 1) AND of_nat 15"
    unfolding next_ix_def by (simp add: of_nat_and_eq del: of_nat_Suc of_nat_add)
  then show ?thesis by (simp add: add.commute)
qed

lemma example_fields:
  "TWI_ADDR example_config = 11" "SPM_PAGESIZE example_config = 64"
  "TIMONEL_START example_config = 0x1A00" "RESET_PAGE example_config = 0"
  "MST_PACKET_SIZE example_config = 8" "TWI_RX_BUFFER_SIZE example_config = 16"
  "TWI_TX_BUFFER_SIZE example_config = 16"
  "FL_INIT_1 example_config = 0" "FL_INIT_2 example_config = 1"
  "FL_DEL_FLASH example_config = 2" "FL_EXIT_TML example_config = 3"
  "SHORT_EXIT_DLY example_config = 0x0A" "SHORT_LED_DLY example_config = 0xFFFF"
  "AUTO_PAGE_ADDR example_config" "\<not> CMD_SETPGADDR example_config"
  "\<not> CMD_READFLASH example_config" "\<not> TWO_STEP_INIT example_config"
  "\<not> APP_USE_TPL_PG example_config" "CHECK_PAGE_IX example_config"
  "\<not> FORCE_ERASE_PG example_config" "\<not> USE_WDT_RESET example_config"
  "TIMEOUT_EXIT example_config" "cmd example_config = example_codes"
  by (simp_all add: example_config_def)

section \<open>Reset-page substitution\<close>

text \<open>
  C1: a WRITPAGE command processed at the reset page with \<open>AUTO_PAGE_ADDR\<close> enabled saves
  \<open>command[1]\<close> and \<open>command[2]\<close> as the application's reset vector and fills flash word
  0 with the jump word \<open>0xC000 | ((TIMONEL_START / 2) - 1)\<close>; no other fill of the call
  goes to word 0, so the bytes of the master never reach it. The source adds the two
  parts of the jump word, which is the same as or-ing them while \<open>TIMONEL_START / 2 - 1\<close>
  stays below \<open>0x4000\<close>, as it does for every flash address of the device. The other
  bounds keep the indices of the source inside their types and arrays.
\<close>

theorem C1_reset_page_substitution:
  assumes "AUTO_PAGE_ADDR cfg" and "RESET_PAGE cfg = 0"
    and "page_addr (mem_pack s) + ucast (page_ix (mem_pack s)) = 0"
    and "2 \<le> TIMONEL_START cfg" and "TIMONEL_START cfg \<le> 0x8000"
    and "2 \<le> MST_PACKET_SIZE cfg" and "MST_PACKET_SIZE cfg \<le> 254"
    and "length cmnd = MST_PACKET_SIZE cfg * 2"
  shows "app_reset_lsb (mem_pack (snd (WRITPAGE_reply cfg cmnd s))) = cmnd ! 1 \<and>
         app_reset_msb (mem_pack (snd (WRITPAGE_reply cfg cmnd s))) = cmnd ! 2 \<and>
         (\<exists>rest. trace (snd (WRITPAGE_reply cfg cmnd s)) =
                   trace s @ Page_Fill 0 (0xC000 OR (of_nat (TIMONEL_START cfg div 2) - 1)) # rest \<and>
                 (\<forall>a w. Page_Fill a w \<in> set rest \<longrightarrow> a \<noteq> 0)) \<and>
         (\<forall>s'. final (Reply_WRITPAGE cfg cmnd s) = Some s' \<longrightarrow>
               app_reset_lsb (mem_pack s') = cmnd ! 1 \<and> app_reset_msb (mem_pack s') = cmnd ! 2 \<and>
               trace s' = trace (snd (WRITPAGE_reply cfg cmnd s)))"
proof -
  let ?r = "snd (WRITPAGE_reply cfg cmnd s)"
  let ?rest = "loop_fills cmnd (page_addr (mem_pack s)) (page_ix (mem_pack s) + 2) 3
                 ((MST_PACKET_SIZE cfg + 2 - 3) div 2)"
  have at_reset: "page_addr (mem_pack s) + ucast (page_ix (mem_pack s)) = of_nat (RESET_PAGE cfg)"
    using assms(2,3) by simp
  note br = WRITPAGE_reset_branch[OF at_reset assms(1), of cmnd]
  have tr: "trace ?r = trace s @ Page_Fill 0 (0xC000 OR (of_nat (TIMONEL_START cfg div 2) - 1)) # ?rest"
    using br(3) assms(2) jump_word_or[OF assms(4,5)] by simp
  have nz: "a \<noteq> 0" if "Page_Fill a w \<in> set ?rest" for a w
  proof -
    from loop_fills_addr[OF that] obtain j where j: "j < (MST_PACKET_SIZE cfg + 2 - 3) div 2"
      and a: "a = page_addr (mem_pack s) + ucast (page_ix (mem_pack s) + 2 + of_nat (2 * j))"
      by auto
    have "2 + 2 * j < 256" using j assms(7) by simp
    then have "page_addr (mem_pack s) + ucast (page_ix (mem_pack s) + of_nat (2 + 2 * j) :: u8) \<noteq> 0"
      by (intro fill_addr_nonzero[OF assms(3)]) simp_all
    then show ?thesis using a by (simp add: add.assoc)
  qed
  have fin: "app_reset_lsb (mem_pack s') = cmnd ! 1 \<and> app_reset_msb (mem_pack s') = cmnd ! 2 \<and>
             trace s' = trace ?r"
    if "final (Reply_WRITPAGE cfg cmnd s) = Some s'" for s'
    using Reply_WRITPAGE_final[OF that] br(1,2) by simp
  show ?thesis
    using br(1,2) tr nz fin by blast
qed

theorem C1_reset_page_substitution_witness:
  "app_reset_lsb (mem_pack (snd (WRITPAGE_reply example_config example_WRITPAGE example_state))) = 0x0E \<and>
   app_reset_msb (mem_pack (snd (WRITPAGE_reply example_config example_WRITPAGE example_state))) = 0xC0 \<and>
   (\<exists>rest. trace (snd (WRITPAGE_reply example_config example_WRITPAGE example_state)) =
             trace example_state @ Page_Fill 0 0xCCFF # rest)"
proof -
  have h: "AUTO_PAGE_ADDR example_config" "RESET_PAGE example_config = 0"
    "page_addr (mem_pack example_state) + ucast (page_ix (mem_pack example_state)) = 0"
    "2 \<le> TIMONEL_START example_config" "TIMONEL_START example_config \<le> 0x8000"
    "2 \<le> MST_PACKET_SIZE example_config" "MST_PACKET_SIZE example_config \<le> 254"
    "length example_WRITPAGE = MST_PACKET_SIZE example_config * 2"
    by (simp_all add: example_config_def example_state_mem_pack example_WRITPAGE_def)
  have v: "(0xC000 OR (of_nat (TIMONEL_START example_config div 2) - 1) :: u16) = 0xCCFF"
    by (simp add: example_config_def)
  have n: "example_WRITPAGE ! 1 = 0x0E" "example_WRITPAGE ! 2 = 0xC0"
    by (simp_all add: example_WRITPAGE_def)
  from C1_reset_page_substitution[OF h] show ?thesis
    unfolding v n by blast
qed

section \<open>WRITPAGE checksum\<close>



section \<open>WRITPAGE always advances the page index\<close>





section \<open>The erase loop\<close>

lemma erase_loop_pages:
  assumes "RESET_PAGE cfg = 0" and "0 < SPM_PAGESIZE cfg"
  shows "k * SPM_PAGESIZE cfg < 2 ^ 16 \<Longrightarrow>
         erase_loop cfg (of_nat (k * SPM_PAGESIZE cfg)) s =
           Some (s\<lparr>trace := trace s @ map Page_Erase (erased_pages cfg k)\<rparr>)"
proof (induction k arbitrary: s)
  case 0
  then show ?case
    using assms(1) by (subst erase_loop.simps) (simp add: erased_pages_def)
next
  case (Suc k)
  have nz: "(of_nat (Suc k * SPM_PAGESIZE cfg) :: u16) \<noteq> of_nat (RESET_PAGE cfg)"
  proof -
    define n where "n = Suc k * SPM_PAGESIZE cfg"
    have "0 < n" "n < 2 ^ 16" using assms(2) Suc.prems by (simp_all add: n_def)
    then have "unat (of_nat n :: u16) \<noteq> 0"
      by (simp add: unat_of_nat)
    then have "(of_nat n :: u16) \<noteq> 0"
      by auto
    then show ?thesis using assms(1) by (simp add: n_def)
  qed
  have step: "(of_nat (Suc k * SPM_PAGESIZE cfg) :: u16) - of_nat (SPM_PAGESIZE cfg) =
              of_nat (k * SPM_PAGESIZE cfg)"
    by simp
  have less: "k * SPM_PAGESIZE cfg < 2 ^ 16"
    using Suc.prems by simp
  show ?case
    apply (subst erase_loop.simps)
    apply (simp only: nz if_True Let_def step)
    apply (subst Suc.IH[OF less])
    apply (simp add: boot_page_erase_def emit_def erased_pages_def)
    done
qed

lemma unat_of_nat16: "n < 2 ^ 16 \<Longrightarrow> unat (of_nat n :: u16) = n"
  by (simp add: unat_of_nat)

lemma erased_pages_props:
  assumes "0 < SPM_PAGESIZE cfg" and "k * SPM_PAGESIZE cfg < 2 ^ 16"
  shows "length (erased_pages cfg k) = k"
    and "distinct (erased_pages cfg k)"
    and "set (erased_pages cfg k) = {a. \<exists>j<k. a = of_nat (j * SPM_PAGESIZE cfg)}"
    and "\<forall>a \<in> set (erased_pages cfg k). unat a < k * SPM_PAGESIZE cfg"
proof -
  show "length (erased_pages cfg k) = k"
    by (simp add: erased_pages_def)
  have small: "j * SPM_PAGESIZE cfg < 2 ^ 16" if "j < k" for j
  proof -
    have "j * SPM_PAGESIZE cfg \<le> k * SPM_PAGESIZE cfg" using that by (simp add: mult_le_mono1)
    then show ?thesis using assms(2) by linarith
  qed
  have inj: "inj_on (\<lambda>j. of_nat (j * SPM_PAGESIZE cfg) :: u16) {0..<k}"
  proof (rule inj_onI)
    fix i j assume i: "i \<in> {0..<k}" and j: "j \<in> {0..<k}"
      and eq: "(of_nat (i * SPM_PAGESIZE cfg) :: u16) = of_nat (j * SPM_PAGESIZE cfg)"
    have "i * SPM_PAGESIZE cfg = unat (of_nat (i * SPM_PAGESIZE cfg) :: u16)"
      using i by (intro unat_of_nat16[symmetric] small) simp
    also have "\<dots> = unat (of_nat (j * SPM_PAGESIZE cfg) :: u16)"
      by (simp only: eq)
    also have "\<dots> = j * SPM_PAGESIZE cfg"
      using j by (intro unat_of_nat16 small) simp
    finally show "i = j" using assms(1) by simp
  qed
  show "distinct (erased_pages cfg k)"
    using inj by (simp add: erased_pages_def distinct_map)
  show "set (erased_pages cfg k) = {a. \<exists>j<k. a = of_nat (j * SPM_PAGESIZE cfg)}"
    by (auto simp: erased_pages_def)
  show "\<forall>a \<in> set (erased_pages cfg k). unat a < k * SPM_PAGESIZE cfg"
  proof
    fix a assume "a \<in> set (erased_pages cfg k)"
    then obtain j where j: "j < k" and a: "a = of_nat (j * SPM_PAGESIZE cfg)"
      by (auto simp: erased_pages_def)
    have "unat a = j * SPM_PAGESIZE cfg"
      unfolding a by (rule unat_of_nat16[OF small[OF j]])
    also have "\<dots> < k * SPM_PAGESIZE cfg"
      using j assms(1) by simp
    finally show "unat a < k * SPM_PAGESIZE cfg" .
  qed
qed

section \<open>Termination of the erase loop\<close>

text \<open>
  C10: with \<open>RESET_PAGE = 0\<close> and \<open>TIMONEL_START\<close> a positive multiple of \<open>SPM_PAGESIZE\<close>
  that fits the 16-bit \<open>page_to_del\<close>, the erase loop started at \<open>TIMONEL_START\<close> ends, and
  it ends after \<open>TIMONEL_START / SPM_PAGESIZE\<close> iterations: each iteration makes one call
  of \<open>boot_page_erase\<close> and nothing else, and that many calls are added to the trace.
\<close>

theorem C10_erase_loop_terminates:
  assumes "RESET_PAGE cfg = 0" and "0 < TIMONEL_START cfg"
    and "SPM_PAGESIZE cfg dvd TIMONEL_START cfg" and "TIMONEL_START cfg < 2 ^ 16"
  shows "\<exists>s' es. erase_loop cfg (of_nat (TIMONEL_START cfg)) s = Some s' \<and>
                 trace s' = trace s @ es \<and>
                 length es = TIMONEL_START cfg div SPM_PAGESIZE cfg \<and>
                 (\<forall>e \<in> set es. \<exists>a. e = Page_Erase a)"
proof -
  from assms(2,3) have ps: "0 < SPM_PAGESIZE cfg"
    by (auto intro: Nat.gr0I)
  define k where "k = TIMONEL_START cfg div SPM_PAGESIZE cfg"
  have ts: "TIMONEL_START cfg = k * SPM_PAGESIZE cfg"
    using assms(3) by (simp add: k_def)
  have "erase_loop cfg (of_nat (TIMONEL_START cfg)) s =
          Some (s\<lparr>trace := trace s @ map Page_Erase (erased_pages cfg k)\<rparr>)"
    unfolding ts using erase_loop_pages[OF assms(1) ps, of k s] assms(4) ts by simp
  moreover have "length (map Page_Erase (erased_pages cfg k)) = k"
    by (simp add: erased_pages_def)
  ultimately show ?thesis
    unfolding k_def[symmetric] by (intro exI conjI) auto
qed

theorem C10_erase_loop_terminates_witness:
  "\<exists>s' es. erase_loop example_config 0x1A00 example_state = Some s' \<and>
           trace s' = trace example_state @ es \<and> length es = 104"
proof -
  have h: "RESET_PAGE example_config = 0" "0 < TIMONEL_START example_config"
    "SPM_PAGESIZE example_config dvd TIMONEL_START example_config"
    "TIMONEL_START example_config < 2 ^ 16"
    by (simp_all add: example_config_def)
  have v: "TIMONEL_START example_config = 0x1A00" "SPM_PAGESIZE example_config = 64"
    by (simp_all add: example_config_def)
  from C10_erase_loop_terminates[OF h, of example_state] show ?thesis
    unfolding v by auto
qed

section \<open>Erase range of the delete operation\<close>

text \<open>
  C4: when the delete slow operation runs (\<open>FL_DEL_FLASH\<close> set, no exit requested) with
  \<open>RESET_PAGE = 0\<close> and \<open>TIMONEL_START\<close> a positive multiple of \<open>SPM_PAGESIZE\<close>, the calls
  of \<open>boot_page_erase\<close> it makes are one for each page base address \<open>0, SPM_PAGESIZE, ...,
  TIMONEL_START - SPM_PAGESIZE\<close>, each exactly once and none at or above
  \<open>TIMONEL_START\<close>; then the bootloader restarts.
\<close>

theorem C4_DELFLASH_erase_range:
  assumes "RESET_PAGE cfg = 0" and "0 < TIMONEL_START cfg"
    and "SPM_PAGESIZE cfg dvd TIMONEL_START cfg" and "TIMONEL_START cfg < 2 ^ 16"
    and "flag_set (flags (mem_pack s)) (FL_DEL_FLASH cfg)"
    and "\<not> flag_set (flags (mem_pack s)) (FL_EXIT_TML cfg)"
  shows "\<exists>s' pages t.
           slow_ops cfg inp s = Jumps t s' \<and>
           t = (if USE_WDT_RESET cfg then Watchdog_Reset else To_Timonel_Start) \<and>
           trace s' = trace s @ map Page_Erase pages @ [Jumped t] \<and>
           distinct pages \<and>
           set pages = {a. \<exists>j < TIMONEL_START cfg div SPM_PAGESIZE cfg.
                             a = of_nat (j * SPM_PAGESIZE cfg)} \<and>
           (\<forall>a \<in> set pages. unat a < TIMONEL_START cfg)"
proof -
  from assms(2,3) have ps: "0 < SPM_PAGESIZE cfg"
    by (auto intro: Nat.gr0I)
  define k where "k = TIMONEL_START cfg div SPM_PAGESIZE cfg"
  have ts: "TIMONEL_START cfg = k * SPM_PAGESIZE cfg"
    using assms(3) by (simp add: k_def)
  have small: "k * SPM_PAGESIZE cfg < 2 ^ 16"
    using assms(4) ts by simp
  define t where "t = (if USE_WDT_RESET cfg then Watchdog_Reset else To_Timonel_Start)"
  have loop: "erase_loop cfg (of_nat (TIMONEL_START cfg)) s =
          Some (s\<lparr>trace := trace s @ map Page_Erase (erased_pages cfg k)\<rparr>)"
    unfolding ts using erase_loop_pages[OF assms(1) ps small, of s] by simp
  have "slow_ops cfg inp s =
          Jumps t (emit (Jumped t) (s\<lparr>trace := trace s @ map Page_Erase (erased_pages cfg k)\<rparr>))"
    using assms(5,6) by (simp add: slow_ops_def loop leave_def t_def)
  moreover have "trace (emit (Jumped t) (s\<lparr>trace := trace s @ map Page_Erase (erased_pages cfg k)\<rparr>)) =
                 trace s @ map Page_Erase (erased_pages cfg k) @ [Jumped t]"
    by (simp add: emit_def)
  moreover note erased_pages_props(2,3)[OF ps small]
  moreover have "\<forall>a \<in> set (erased_pages cfg k). unat a < TIMONEL_START cfg"
    using erased_pages_props(4)[OF ps small] ts by simp
  ultimately show ?thesis
    unfolding k_def[symmetric] t_def[symmetric] by blast
qed

theorem C4_DELFLASH_erase_range_witness:
  "\<exists>s' pages.
     slow_ops example_config quiet_inputs delete_requested = Jumps To_Timonel_Start s' \<and>
     trace s' = trace delete_requested @ map Page_Erase pages @ [Jumped To_Timonel_Start] \<and>
     distinct pages \<and>
     set pages = {a. \<exists>j < 104. a = of_nat (j * 64)}"
proof -
  have h: "RESET_PAGE example_config = 0" "0 < TIMONEL_START example_config"
    "SPM_PAGESIZE example_config dvd TIMONEL_START example_config"
    "TIMONEL_START example_config < 2 ^ 16"
    by (simp_all add: example_config_def)
  have f: "flag_set (flags (mem_pack delete_requested)) (FL_DEL_FLASH example_config)"
    "\<not> flag_set (flags (mem_pack delete_requested)) (FL_EXIT_TML example_config)"
    by (simp_all add: delete_requested_def example_state_mem_pack raise_flag_def flag_set_def
        example_config_def)
  have v: "TIMONEL_START example_config = 0x1A00"
    "SPM_PAGESIZE example_config = 64" "USE_WDT_RESET example_config = False"
    by (simp_all add: example_config_def)
  from C4_DELFLASH_erase_range[OF h f, of quiet_inputs] show ?thesis
    unfolding v by auto
qed

section \<open>Register values\<close>

lemma USI_values:
  "USICR (SET_USI_TO_WAIT_FOR_TWI_ADDRESS s) = 0xA8"
  "USISR (SET_USI_TO_WAIT_FOR_TWI_ADDRESS s) = 0x70"
  "USISR (SET_USI_TO_SEND_ACK s) = 0x7E"
  "USIDR (SET_USI_TO_SEND_ACK s) = 0"
  "DDR_USI (SET_USI_TO_SEND_ACK s) = DDR_USI s OR 1"
  by (simp_all add: SET_USI_TO_WAIT_FOR_TWI_ADDRESS_def SET_USI_TO_SHIFT_8_DATA_BITS_def
      SET_USI_TO_DETECT_TWI_START_def SET_USI_TO_SEND_ACK_def SET_USI_TO_SHIFT_1_ACK_BIT_def
      SET_USI_SDA_AS_OUTPUT_def
      TWI_START_COND_INT_def USI_OVERFLOW_INT_def USIWM1_def USIWM0_def USICS1_def USICS0_def
      USICLK_def USITC_def TWI_START_COND_FLAG_def USI_OVERFLOW_FLAG_def TWI_STOP_COND_FLAG_def
      TWI_COLLISION_FLAG_def USICNT0_def PORT_USI_SDA_def)

lemma SET_USI_TO_WAIT_FOR_TWI_ADDRESS_eq:
  "SET_USI_TO_WAIT_FOR_TWI_ADDRESS s = s\<lparr>USICR := 0xA8, USISR := 0x70\<rparr>"
  by (simp add: SET_USI_TO_WAIT_FOR_TWI_ADDRESS_def SET_USI_TO_SHIFT_8_DATA_BITS_def
      SET_USI_TO_DETECT_TWI_START_def
      TWI_START_COND_INT_def USI_OVERFLOW_INT_def USIWM1_def USIWM0_def USICS1_def USICS0_def
      USICLK_def USITC_def TWI_START_COND_FLAG_def USI_OVERFLOW_FLAG_def TWI_STOP_COND_FLAG_def
      TWI_COLLISION_FLAG_def USICNT0_def)

lemma SET_USI_TO_SEND_ACK_eq:
  "SET_USI_TO_SEND_ACK s = s\<lparr>USIDR := 0, DDR_USI := DDR_USI s OR 1, USISR := 0x7E\<rparr>"
  by (simp add: SET_USI_TO_SEND_ACK_def SET_USI_TO_SHIFT_1_ACK_BIT_def SET_USI_SDA_AS_OUTPUT_def
      TWI_START_COND_FLAG_def USI_OVERFLOW_FLAG_def TWI_STOP_COND_FLAG_def
      TWI_COLLISION_FLAG_def USICNT0_def PORT_USI_SDA_def)

section \<open>Address filtering\<close>

text \<open>
  C8: an address byte \<open>a\<close> that is neither the general call nor \<open>TWI_ADDR\<close>, processed in
  \<open>STATE_CHECK_RECEIVED_ADDRESS\<close>, makes the handler return \<open>false\<close> having written two
  registers only: \<open>USICR\<close> (start-condition interrupt on, overflow interrupt off) and
  \<open>USISR\<close> (flags cleared, counter set for eight bits). No acknowledge is set up: the
  data register still holds \<open>a\<close> and the direction of SDA is untouched. Both rings, their
  indices, the byte count, the \<open>MemPack\<close> and the trace are as before.
\<close>

theorem C8_address_mismatch:
  assumes "device_state s = STATE_CHECK_RECEIVED_ADDRESS"
    and "USIDR s = a" and "unat (drop_bit 1 a) \<noteq> TWI_ADDR cfg" and "a \<noteq> 0"
  shows "\<exists>s'. UsiOverflowHandler cfg inp s = Returns False s' \<and>
              s' = s\<lparr>USICR := 0xA8, USISR := 0x70\<rparr> \<and>
              flag_set (USICR s') TWI_START_COND_INT \<and> \<not> flag_set (USICR s') USI_OVERFLOW_INT \<and>
              USIDR s' = a \<and> DDR_USI s' = DDR_USI s \<and>
              (\<forall>t. s' \<noteq> SET_USI_TO_SEND_ACK t) \<and>
              device_state s' = STATE_CHECK_RECEIVED_ADDRESS \<and>
              rx_buffer s' = rx_buffer s \<and> rx_head s' = rx_head s \<and> rx_tail s' = rx_tail s \<and>
              rx_byte_count s' = rx_byte_count s \<and>
              tx_buffer s' = tx_buffer s \<and> tx_head s' = tx_head s \<and> tx_tail s' = tx_tail s \<and>
              mem_pack s' = mem_pack s \<and> trace s' = trace s"
proof -
  have r: "UsiOverflowHandler cfg inp s = Returns False (s\<lparr>USICR := 0xA8, USISR := 0x70\<rparr>)"
    using assms by (simp add: UsiOverflowHandler_def SET_USI_TO_WAIT_FOR_TWI_ADDRESS_eq)
  have f: "flag_set (0xA8 :: u8) TWI_START_COND_INT" "\<not> flag_set (0xA8 :: u8) USI_OVERFLOW_INT"
    by (simp_all add: flag_set_def TWI_START_COND_INT_def USI_OVERFLOW_INT_def)
  have n: "s\<lparr>USICR := 0xA8, USISR := 0x70\<rparr> \<noteq> SET_USI_TO_SEND_ACK t" for t
  proof
    assume "s\<lparr>USICR := 0xA8, USISR := 0x70\<rparr> = SET_USI_TO_SEND_ACK t"
    then have "USIDR (s\<lparr>USICR := 0xA8, USISR := 0x70\<rparr>) = USIDR (SET_USI_TO_SEND_ACK t)"
      by simp
    then show False using assms(2,4) by (simp add: USI_values)
  qed
  show ?thesis
    using r f n assms(1,2) by simp
qed

theorem C8_address_mismatch_witness:
  "UsiOverflowHandler example_config quiet_inputs (example_state\<lparr>USIDR := 0x30\<rparr>) =
     Returns False (example_state\<lparr>USIDR := 0x30, USICR := 0xA8, USISR := 0x70\<rparr>)"
proof -
  have h: "device_state (example_state\<lparr>USIDR := 0x30\<rparr>) = STATE_CHECK_RECEIVED_ADDRESS"
    "USIDR (example_state\<lparr>USIDR := 0x30\<rparr>) = 0x30"
    "unat (drop_bit 1 (0x30 :: u8)) \<noteq> TWI_ADDR example_config" "(0x30 :: u8) \<noteq> 0"
    by (simp_all add: example_state_def main_setup_def Let_def UsiTwiDriverInit_def
        SET_USI_TO_WAIT_FOR_TWI_ADDRESS_eq SET_USI_SDA_AS_INPUT_def
        SET_USI_SDA_AND_SCL_AS_OUTPUT_def emit_def power_on_def c_startup_def example_config_def
        drop_bit_eq_div)
  from C8_address_mismatch[OF h, of quiet_inputs] show ?thesis
    by simp
qed

section \<open>RX overrun\<close>

lemma SET_USI_TO_SEND_ACK_if3_eq:
  "SET_USI_TO_SEND_ACK_if3 d = d\<lparr>d_USIDR := 0, d_DDR_USI := d_DDR_USI d OR 1, d_USISR := 0x7E\<rparr>"
  by (simp add: SET_USI_TO_SEND_ACK_if3_def SET_USI_SDA_AS_OUTPUT_if3_def
      TWI_START_COND_FLAG_def USI_OVERFLOW_FLAG_def TWI_STOP_COND_FLAG_def
      TWI_COLLISION_FLAG_def USICNT0_def PORT_USI_SDA_def)

lemma PUT_BYTE_eq:
  assumes "device_state s = STATE_PUT_BYTE_IN_RX_BUFFER_AND_SEND_ACK"
  shows "UsiOverflowHandler cfg inp s =
           Returns False
             (s\<lparr>rx_byte_count := rx_byte_count s + 1,
                rx_head := next_ix (rx_head s) (TWI_RX_BUFFER_MASK cfg),
                rx_buffer := (rx_buffer s)[unat (next_ix (rx_head s) (TWI_RX_BUFFER_MASK cfg)) := USIDR s],
                device_state := STATE_RECEIVE_DATA_BYTE,
                USIDR := 0, DDR_USI := DDR_USI s OR 1, USISR := 0x7E\<rparr>)"
  using assms by (simp add: UsiOverflowHandler_def Let_def SET_USI_TO_SEND_ACK_eq)

text \<open>
  C7: the code of \<open>timonel.c\<close> does not do what the claim says. With the 16-byte ring
  holding 16 unread bytes (a master has written 16 data bytes and sends a 17th), the byte
  \<open>0xAA\<close> arriving in \<open>STATE_PUT_BYTE_IN_RX_BUFFER_AND_SEND_ACK\<close> is not dropped: it is
  stored in slot 1, over the oldest unread byte, the count goes to 17, above the capacity,
  and the acknowledge is set up. The dispatcher's copy loop, run next with that count, then
  reaches \<open>command[16]\<close>, outside the 16-byte array. The driver of \<open>nb-usitwisl-if3.h\<close>,
  given the same ring and byte, leaves buffer, head and tail as they were: its store is
  guarded by \<open>rx_count < TWI_RX_BUFFER_SIZE\<close>.
\<close>

theorem C7_rx_overrun_not_dropped:
  "device_state full_rx_ring = STATE_PUT_BYTE_IN_RX_BUFFER_AND_SEND_ACK \<and>
   unat (rx_byte_count full_rx_ring) = TWI_RX_BUFFER_SIZE example_config \<and>
   rx_head full_rx_ring = rx_tail full_rx_ring \<and>
   rx_buffer full_rx_ring = [16, 1, 2, 3, 4, 5, 6, 7, 8, 9, 10, 11, 12, 13, 14, 15] \<and>
   USIDR full_rx_ring = 0xAA \<and>
   (\<exists>s'. UsiOverflowHandler example_config quiet_inputs full_rx_ring = Returns False s' \<and>
         rx_buffer s' = [16, 0xAA, 2, 3, 4, 5, 6, 7, 8, 9, 10, 11, 12, 13, 14, 15] \<and>
         rx_byte_count s' = 17 \<and> rx_head s' = 1 \<and> rx_tail s' = 0 \<and>
         device_state s' = STATE_RECEIVE_DATA_BYTE \<and>
         USIDR s' = 0 \<and> DDR_USI s' = DDR_USI full_rx_ring OR 1 \<and> USISR s' = 0x7E \<and>
         length (command s') = 16 \<and>
         (\<exists>u. RX_drain example_config (unat (rx_byte_count s')) 0 s' = Undefined u)) \<and>
   d_device_state full_rx_ring_if3 = STATE_RECEIVE_DATA_AND_SEND_ACK \<and>
   unat (rx_count full_rx_ring_if3) = TWI_RX_BUFFER_SIZE example_config \<and>
   d_USIDR full_rx_ring_if3 = 0xAA \<and>
   (\<exists>d'. UsiOverflowHandler_if3 example_config id 0 full_rx_ring_if3 = (False, d') \<and>
         d_rx_buffer d' = d_rx_buffer full_rx_ring_if3 \<and>
         d_rx_head d' = d_rx_head full_rx_ring_if3 \<and>
         d_rx_tail d' = d_rx_tail full_rx_ring_if3 \<and>
         d_USIDR d' = 0 \<and> d_DDR_USI d' = d_DDR_USI full_rx_ring_if3 OR 1)"
proof -
  have d: "device_state full_rx_ring = STATE_PUT_BYTE_IN_RX_BUFFER_AND_SEND_ACK"
    by (simp add: full_rx_ring_def)
  have timonel:
    "\<exists>s'. UsiOverflowHandler example_config quiet_inputs full_rx_ring = Returns False s' \<and>
         rx_buffer s' = [16, 0xAA, 2, 3, 4, 5, 6, 7, 8, 9, 10, 11, 12, 13, 14, 15] \<and>
         rx_byte_count s' = 17 \<and> rx_head s' = 1 \<and> rx_tail s' = 0 \<and>
         device_state s' = STATE_RECEIVE_DATA_BYTE \<and>
         USIDR s' = 0 \<and> DDR_USI s' = DDR_USI full_rx_ring OR 1 \<and> USISR s' = 0x7E \<and>
         length (command s') = 16 \<and>
         (\<exists>u. RX_drain example_config (unat (rx_byte_count s')) 0 s' = Undefined u)"
    unfolding PUT_BYTE_eq[OF d]
    by (simp add: full_rx_ring_def example_state_def main_setup_def power_on_def c_startup_def
        UsiTwiDriverInit_def SET_USI_SDA_AS_INPUT_def SET_USI_SDA_AND_SCL_AS_OUTPUT_def
        SET_USI_TO_WAIT_FOR_TWI_ADDRESS_eq emit_def Let_def
        example_fields next_ix_15 TWI_RX_BUFFER_MASK_def RX_drain.simps
        cong: and_then_weak_cong let_weak_cong)
  have if3:
    "\<exists>d'. UsiOverflowHandler_if3 example_config id 0 full_rx_ring_if3 = (False, d') \<and>
         d_rx_buffer d' = d_rx_buffer full_rx_ring_if3 \<and>
         d_rx_head d' = d_rx_head full_rx_ring_if3 \<and>
         d_rx_tail d' = d_rx_tail full_rx_ring_if3 \<and>
         d_USIDR d' = 0 \<and> d_DDR_USI d' = d_DDR_USI full_rx_ring_if3 OR 1"
    by (simp add: UsiOverflowHandler_if3_def Let_def after_switch_def
        SET_USI_TO_SEND_ACK_if3_eq full_rx_ring_if3_def example_fields)
  show ?thesis
    using timonel if3 by (simp add: full_rx_ring_def full_rx_ring_if3_def example_fields)
qed

section \<open>What a call adds to the trace\<close>

lemma is_fill_iff: "is_fill e \<longleftrightarrow> (\<exists>a w. e = Page_Fill a w)"
  by (cases e) (simp_all add: is_fill_def)

lemma only_fills_refl: "trace s' = trace s \<Longrightarrow> only_fills s s'"
  by (simp add: only_fills_def)

lemma only_fills_trans: "only_fills s s1 \<Longrightarrow> only_fills s1 s2 \<Longrightarrow> only_fills s s2"
  by (fastforce simp: only_fills_def)

lemma stays_with_simps [simp]:
  "stays_with P (Returns r s) = P s"
  "stays_with P (Spins s) = P s"
  "stays_with P (Jumps t s) = False"
  "stays_with P (Undefined s) = P s"
  by (simp_all add: stays_with_def)

lemma stays_with_and_then:
  assumes "stays_with (only_fills s) x"
    and "\<And>r s1. x = Returns r s1 \<Longrightarrow> stays_with (only_fills s1) (k r s1)"
  shows "stays_with (only_fills s) (and_then x k)"
proof (cases x)
  case (Returns r s1)
  with assms(1) have "only_fills s s1" by simp
  moreover from assms(2)[OF Returns] have "stays_with (only_fills s1) (k r s1)" .
  ultimately show ?thesis
    using Returns by (cases "k r s1") (auto intro: only_fills_trans)
qed (use assms(1) in simp_all)

lemma stays_with_mono:
  "stays_with P x \<Longrightarrow> (\<And>s'. P s' \<Longrightarrow> Q s') \<Longrightarrow> stays_with Q x"
  by (cases x) simp_all

lemma UsiTwiTransmitByte_fills: "stays_with (only_fills s) (UsiTwiTransmitByte cfg b s)"
  by (simp add: UsiTwiTransmitByte_def Let_def only_fills_refl)

lemma UsiTwiTransmitByte_stays:
  "stays_with (\<lambda>s'. trace s' = trace t) (UsiTwiTransmitByte cfg b t)"
  by (simp add: UsiTwiTransmitByte_def Let_def)

lemma transmit_reply_stays:
  "stays_with (\<lambda>s'. trace s' = trace t) (transmit_reply cfg bs t)"
proof (induction bs arbitrary: t)
  case Nil
  then show ?case by simp
next
  case (Cons b bs)
  show ?case
  proof (cases "UsiTwiTransmitByte cfg b t")
    case (Returns u t1)
    with UsiTwiTransmitByte_stays[of t cfg b] have "trace t1 = trace t" by simp
    with Cons.IH[of t1] Returns show ?thesis by simp
  qed (use UsiTwiTransmitByte_stays[of t cfg b] in simp_all)
qed

lemma transmit_reply_fills:
  "trace t = trace s \<Longrightarrow> stays_with (only_fills s) (transmit_reply cfg bs t)"
  using transmit_reply_stays[of t cfg bs]
  by (rule stays_with_mono) (simp add: only_fills_refl)

lemma UsiTwiTransmitByte_fills':
  "trace t = trace s \<Longrightarrow> stays_with (only_fills s) (UsiTwiTransmitByte cfg b t)"
  by (simp add: UsiTwiTransmitByte_def Let_def only_fills_refl)

lemma Reply_WRITPAGE_fills: "stays_with (only_fills s) (Reply_WRITPAGE cfg cmnd s)"
proof -
  have "only_fills s (snd (WRITPAGE_reply cfg cmnd s))"
    by (auto simp: WRITPAGE_reply_def WRITPAGE_loop_eq Let_def boot_page_fill_def emit_def
        only_fills_def loop_fills_def is_fill_def raise_flag_def split: prod.splits)
  moreover have "stays_with (only_fills (snd (WRITPAGE_reply cfg cmnd s))) (Reply_WRITPAGE cfg cmnd s)"
    unfolding Reply_WRITPAGE_def split_beta
    by (rule transmit_reply_fills) simp
  ultimately show ?thesis
    by (auto elim!: stays_with_mono intro: only_fills_trans)
qed

lemma ReceiveEvent_fills: "stays_with (only_fills s) (ReceiveEvent cfg inp cmnd s)"
proof -
  have 1: "stays_with (only_fills s) (Reply_GETTMNLV cfg inp cmnd s)"
    unfolding Reply_GETTMNLV_def Let_def by (rule transmit_reply_fills) simp
  have 2: "stays_with (only_fills s) (Reply_EXITTMNL cfg cmnd s)"
    unfolding Reply_EXITTMNL_def
    by (intro stays_with_and_then UsiTwiTransmitByte_fills) (simp add: only_fills_refl)
  have 3: "stays_with (only_fills s) (Reply_DELFLASH cfg cmnd s)"
    unfolding Reply_DELFLASH_def
    by (intro stays_with_and_then UsiTwiTransmitByte_fills) (simp add: only_fills_refl)
  have 4: "stays_with (only_fills s) (Reply_STPGADDR cfg cmnd s)"
    unfolding Reply_STPGADDR_def Let_def by (rule transmit_reply_fills) simp
  have 5: "stays_with (only_fills s) (Reply_READFLSH cfg inp cmnd s)"
    unfolding Reply_READFLSH_def Let_def
    by (cases "254 \<le> unat (cmnd ! 3)")
      (simp_all only: if_True if_False stays_with_simps transmit_reply_fills[OF refl]
         only_fills_refl[OF refl])
  have 6: "stays_with (only_fills s) (Reply_INITSOFT cfg cmnd s)"
    unfolding Reply_INITSOFT_def by (rule UsiTwiTransmitByte_fills') simp
  show ?thesis
    using 1 2 3 4 5 6 Reply_WRITPAGE_fills[of s cfg cmnd]
    by (simp add: ReceiveEvent_def Let_def only_fills_refl)
qed

declare RX_drain.simps [simp del]

lemma RX_drain_step:
  assumes "i < n" and "i < length (command s)"
  shows "RX_drain cfg n i s =
           RX_drain cfg n (i + 1)
             (s\<lparr>rx_byte_count := (if rx_byte_count s = 0 then rx_byte_count s - 2
                                     else rx_byte_count s - 1),
                rx_tail := next_ix (rx_tail s) (TWI_RX_BUFFER_MASK cfg),
                command := (command s)[i := rx_buffer s ! unat (next_ix (rx_tail s) (TWI_RX_BUFFER_MASK cfg))]\<rparr>)"
  using assms by (subst RX_drain.simps) (simp add: Let_def)

lemma RX_drain_stop:
  "\<not> i < n \<Longrightarrow> RX_drain cfg n i s = Returns () s"
  "i < n \<Longrightarrow> \<not> i < length (command s) \<Longrightarrow>
     RX_drain cfg n i s =
       Undefined (s\<lparr>rx_byte_count := (if rx_byte_count s = 0 then rx_byte_count s - 2
                                          else rx_byte_count s - 1),
                    rx_tail := next_ix (rx_tail s) (TWI_RX_BUFFER_MASK cfg)\<rparr>)"
  by (subst RX_drain.simps, simp add: Let_def)+

lemma RX_drain_keeps:
  "final (RX_drain cfg n i s) = Some s' \<Longrightarrow>
     trace s' = trace s \<and> mem_pack s' = mem_pack s \<and> slow_ops_enabled s' = slow_ops_enabled s"
proof (induction "n - i" arbitrary: i s)
  case 0
  then show ?case by (simp add: RX_drain_stop(1))
next
  case (Suc k)
  then have lt: "i < n" by simp
  show ?case
  proof (cases "i < length (command s)")
    case True
    from Suc.hyps(2) have k: "k = n - (i + 1)" by simp
    from Suc.prems show ?thesis
      unfolding RX_drain_step[OF lt True]
      by (drule_tac Suc.hyps(1)[OF k]) simp
  next
    case False
    with Suc.prems lt show ?thesis by (auto simp: RX_drain_stop(2))
  qed
qed

lemma RX_drain_fills: "stays_with (only_fills s) (RX_drain cfg n i s)"
proof (induction "n - i" arbitrary: i s)
  case 0
  then show ?case by (simp add: RX_drain_stop(1) only_fills_refl)
next
  case (Suc k)
  then have lt: "i < n" by simp
  show ?case
  proof (cases "i < length (command s)")
    case True
    from Suc.hyps(2) have k: "k = n - (i + 1)" by simp
    show ?thesis
      unfolding RX_drain_step[OF lt True]
      by (rule stays_with_mono[OF Suc.hyps(1)[OF k]]) (simp add: only_fills_def)
  next
    case False
    with lt show ?thesis by (simp add: RX_drain_stop(2) only_fills_refl)
  qed
qed

lemma SET_USI_trace [simp]:
  "trace (SET_USI_TO_SEND_ACK s) = trace s"
  "trace (SET_USI_TO_WAIT_FOR_TWI_ADDRESS s) = trace s"
  "trace (SET_USI_TO_RECEIVE_ACK s) = trace s"
  "trace (SET_USI_TO_SEND_BYTE s) = trace s"
  "trace (SET_USI_TO_RECEIVE_BYTE s) = trace s"
  "trace (SET_USI_TO_SHIFT_8_ADDRESS_BITS s) = trace s"
  "trace (SET_USI_TO_DETECT_TWI_RESTART s) = trace s"
  "trace (SET_USI_TO_DETECT_TWI_START s) = trace s"
  "trace (SET_USI_SDA_AS_INPUT s) = trace s"
  by (simp_all add: SET_USI_TO_SEND_ACK_def SET_USI_TO_WAIT_FOR_TWI_ADDRESS_def
      SET_USI_TO_RECEIVE_ACK_def SET_USI_TO_SEND_BYTE_def SET_USI_TO_RECEIVE_BYTE_def
      SET_USI_TO_SHIFT_8_ADDRESS_BITS_def SET_USI_TO_DETECT_TWI_RESTART_def
      SET_USI_TO_DETECT_TWI_START_def SET_USI_TO_SHIFT_1_ACK_BIT_def
      SET_USI_TO_SHIFT_8_DATA_BITS_def SET_USI_SDA_AS_OUTPUT_def SET_USI_SDA_AS_INPUT_def)

lemma UsiOverflowHandler_fills: "stays_with (only_fills s) (UsiOverflowHandler cfg inp s)"
proof -
  have send: "stays_with (only_fills s) (SEND_DATA_BYTE_case cfg s)"
    by (simp add: SEND_DATA_BYTE_case_def Let_def only_fills_refl)
  have addr: "stays_with (only_fills s)
     (and_then (RX_drain cfg (unat (rx_byte_count s)) 0 s)
        (\<lambda>u s1. and_then (ReceiveEvent cfg inp (command s1) s1)
           (\<lambda>u s2. Returns False
              (SET_USI_TO_SEND_ACK (s2\<lparr>device_state := STATE_SEND_DATA_BYTE\<rparr>)))))"
    by (intro stays_with_and_then RX_drain_fills ReceiveEvent_fills) (simp add: only_fills_refl)
  show ?thesis
    using send addr
    by (cases "device_state s") (simp_all add: UsiOverflowHandler_def Let_def only_fills_refl)
qed

lemma run_append:
  "run p (xs @ ys) = (case run p xs of None \<Rightarrow> None | Some q \<Rightarrow> run q ys)"
  by (induction xs arbitrary: p) (auto split: option.splits)

lemma run_fills: "\<forall>e \<in> set fs. is_fill e \<Longrightarrow> run p fs = Some p"
  by (induction fs) (auto simp: is_fill_def split: event.splits)

lemma run_spm: "\<forall>e \<in> set es. is_spm e \<Longrightarrow> run Slow_Section es = Some Slow_Section"
  by (induction es) (auto simp: is_spm_def split: event.splits)

lemma only_spm_refl:
  "trace s' = trace s \<Longrightarrow> slow_ops_enabled s' = slow_ops_enabled s \<Longrightarrow> only_spm s s'"
  by (simp add: only_spm_def)

lemma only_spm_trans: "only_spm s s1 \<Longrightarrow> only_spm s1 s2 \<Longrightarrow> only_spm s s2"
  by (fastforce simp: only_spm_def)

lemma only_spm_emit:
  "is_spm e \<Longrightarrow> only_spm s (emit e s)"
  by (simp add: only_spm_def emit_def)

lemma erase_loop_spm:
  assumes "erase_loop cfg p s = Some s'"
  shows "only_spm s s'"
proof (rule erase_loop.raw_induct[where P = "\<lambda>cfg p s s'. only_spm s s'", OF _ assms], goal_cases)
  case (1 f cfg p s s')
  show ?case
  proof (cases "p \<noteq> of_nat (RESET_PAGE cfg)")
    case True
    with 1(2) have "f cfg (p - of_nat (SPM_PAGESIZE cfg))
                      (boot_page_erase (p - of_nat (SPM_PAGESIZE cfg)) s) = Some s'"
      by (simp add: Let_def)
    from 1(1)[OF this] have "only_spm (boot_page_erase (p - of_nat (SPM_PAGESIZE cfg)) s) s'" .
    moreover have "only_spm s (boot_page_erase (p - of_nat (SPM_PAGESIZE cfg)) s)"
      unfolding boot_page_erase_def by (rule only_spm_emit) (simp add: is_spm_def)
    ultimately show ?thesis by (rule only_spm_trans[rotated])
  next
    case False
    with 1(2) show ?thesis by (simp add: only_spm_refl)
  qed
qed

declare tpl_page_blank.simps [simp del] tpl_page_copy.simps [simp del]

lemma tpl_page_blank_spm: "only_spm s (tpl_page_blank cfg i s)"
proof (induction cfg i s rule: tpl_page_blank.induct)
  case (1 cfg i s)
  show ?case
  proof (cases "int i < int (SPM_PAGESIZE cfg) - 2")
    case True
    have "only_spm s (boot_page_fill (of_nat (TIMONEL_START cfg) - of_nat (SPM_PAGESIZE cfg) + of_nat i) 0xFFFF s)"
      unfolding boot_page_fill_def by (rule only_spm_emit) (simp add: is_spm_def)
    from only_spm_trans[OF this 1[OF True]] True show ?thesis
      by (subst tpl_page_blank.simps) simp
  next
    case False
    then show ?thesis
      by (subst tpl_page_blank.simps) (simp add: only_spm_refl)
  qed
qed

lemma tpl_page_copy_spm: "only_spm s (tpl_page_copy cfg inp i s)"
proof (induction cfg inp i s rule: tpl_page_copy.induct)
  case (1 cfg inp i s)
  show ?case
  proof (cases "int i < int (SPM_PAGESIZE cfg) - 2")
    case True
    have "only_spm s (boot_page_fill (of_nat (TIMONEL_START cfg) - of_nat (SPM_PAGESIZE cfg) + of_nat i)
            (flash_word (in_flash inp) (of_nat (TIMONEL_START cfg) - of_nat (SPM_PAGESIZE cfg) + of_nat i)) s)"
      unfolding boot_page_fill_def by (rule only_spm_emit) (simp add: is_spm_def)
    from only_spm_trans[OF this 1[OF True refl refl]] True show ?thesis
      by (subst tpl_page_copy.simps) (simp add: Let_def)
  next
    case False
    then show ?thesis
      by (subst tpl_page_copy.simps) (simp add: only_spm_refl)
  qed
qed

lemma only_spm_mem_pack: "only_spm s s' \<Longrightarrow> only_spm s (s'\<lparr>mem_pack := m\<rparr>)"
  by (simp add: only_spm_def)

lemma only_spm_fill: "only_spm s s' \<Longrightarrow> only_spm s (boot_page_fill a w s')"
  by (rule only_spm_trans, assumption) (simp add: boot_page_fill_def only_spm_emit is_spm_def)

lemma only_spm_write: "only_spm s s' \<Longrightarrow> only_spm s (boot_page_write a s')"
  by (rule only_spm_trans, assumption) (simp add: boot_page_write_def only_spm_emit is_spm_def)

lemma only_spm_erase: "only_spm s s' \<Longrightarrow> only_spm s (boot_page_erase a s')"
  by (rule only_spm_trans, assumption) (simp add: boot_page_erase_def only_spm_emit is_spm_def)

lemma only_spm_blank: "only_spm s s' \<Longrightarrow> only_spm s (tpl_page_blank cfg i s')"
  by (rule only_spm_trans, assumption) (rule tpl_page_blank_spm)

lemma only_spm_copy: "only_spm s s' \<Longrightarrow> only_spm s (tpl_page_copy cfg inp i s')"
  by (rule only_spm_trans, assumption) (rule tpl_page_copy_spm)

lemma only_spm_if:
  "(c \<Longrightarrow> only_spm s x) \<Longrightarrow> (\<not> c \<Longrightarrow> only_spm s y) \<Longrightarrow> only_spm s (if c then x else y)"
  by simp

lemma write_page_spm: "only_spm s (write_page cfg inp s)"
  unfolding write_page_def Let_def
  by (intro only_spm_if only_spm_mem_pack only_spm_write only_spm_fill only_spm_blank
      only_spm_copy only_spm_erase only_spm_refl refl)

lemma slow_ops_ok:
  assumes "run Polling (trace s) = Some Slow_Section" and "\<not> slow_ops_enabled s"
  shows "iteration_ok (slow_ops cfg inp s)"
proof -
  have spm: "run Polling (trace s') = Some Slow_Section \<and> \<not> slow_ops_enabled s'"
    if "only_spm s s'" for s'
    using that assms by (auto simp: only_spm_def run_append run_spm)
  have lv: "iteration_ok (leave t s')" if "only_spm s s'" for t s'
    using spm[OF that] by (simp add: iteration_ok_def outcome_ok_def leave_def emit_def run_append)
  have wp: "loop_inv (write_page cfg inp s)"
    using spm[OF write_page_spm] by (auto simp: loop_inv_def)
  show ?thesis
  proof (cases "erase_loop cfg (of_nat (TIMONEL_START cfg)) s")
    case None
    then show ?thesis
      using assms lv[OF only_spm_refl[OF refl refl]] wp
      by (simp add: slow_ops_def iteration_ok_def outcome_ok_def deferred_def)
  next
    case (Some s1)
    then show ?thesis
      using assms lv[OF only_spm_refl[OF refl refl]] lv[OF erase_loop_spm[OF Some]] wp
      by (simp add: slow_ops_def iteration_ok_def outcome_ok_def)
  qed
qed

lemma not_initialized_ok:
  assumes "loop_inv s"
  shows "iteration_ok (not_initialized cfg s)"
proof -
  from assms obtain p where p: "run Polling (trace s) = Some p" "p \<noteq> In_Handler"
    "slow_ops_enabled s \<longrightarrow> p = Permitted"
    by (auto simp: loop_inv_def)
  have "loop_inv (s\<lparr>led_delay := d\<rparr>)" "loop_inv (s\<lparr>led_delay := d, exit_delay := e\<rparr>)" for d e
    using assms by (simp_all add: loop_inv_def)
  moreover have "iteration_ok (leave t (s\<lparr>led_delay := d, exit_delay := e\<rparr>))" for t d e
    using p by (simp add: iteration_ok_def outcome_ok_def leave_def emit_def run_append)
  ultimately show ?thesis
    by (simp add: not_initialized_def Let_def iteration_ok_def outcome_ok_def)
qed

lemma outcome_ok_simps [simp]:
  "outcome_ok R (Returns r s) = R r s"
  "outcome_ok R (Spins s) = deferred (trace s)"
  "outcome_ok R (Jumps t s) = (run Polling (trace s) = Some Polling)"
  "outcome_ok R (Undefined s) = deferred (trace s)"
  by (simp_all add: outcome_ok_def)

lemma outcome_ok_and_then:
  assumes "outcome_ok R x" and "\<And>r s1. R r s1 \<Longrightarrow> outcome_ok R' (k r s1)"
  shows "outcome_ok R' (and_then x k)"
  using assms by (cases x) simp_all

lemma loop_inv_deferred: "loop_inv s \<Longrightarrow> deferred (trace s)"
  by (auto simp: loop_inv_def deferred_def)

lemma TwiStartHandler_ok:
  assumes "loop_inv s"
  shows "outcome_ok (\<lambda>u. loop_inv) (TwiStartHandler inp s)"
proof -
  have "loop_inv t" if "trace t = trace s" "slow_ops_enabled t = slow_ops_enabled s" for t
    using assms that by (simp add: loop_inv_def)
  then show ?thesis
    using loop_inv_deferred[OF assms]
    by (simp add: TwiStartHandler_def Let_def SET_USI_SDA_AS_INPUT_def
        SET_USI_TO_SHIFT_8_ADDRESS_BITS_def SET_USI_TO_DETECT_TWI_RESTART_def
        SET_USI_TO_DETECT_TWI_START_def split: option.splits)
qed

lemma handler_call_ok:
  assumes "loop_inv s"
  shows "outcome_ok (\<lambda>u. loop_inv)
           (and_then (UsiOverflowHandler cfg inp (emit Overflow_Enter (s\<lparr>USIDR := d\<rparr>)))
              (\<lambda>b s2. Returns () (emit (Overflow_Return b) (s2\<lparr>slow_ops_enabled := b\<rparr>))))"
proof -
  let ?s0 = "emit Overflow_Enter (s\<lparr>USIDR := d\<rparr>)"
  from assms have in_h: "run Polling (trace ?s0) = Some In_Handler"
    by (auto simp: loop_inv_def emit_def run_append)
  have fills: "run Polling (trace s') = Some In_Handler" if "only_fills ?s0 s'" for s'
    using that in_h by (auto simp: only_fills_def run_append run_fills)
  have "outcome_ok (\<lambda>b s'. run Polling (trace s') = Some In_Handler) (UsiOverflowHandler cfg inp ?s0)"
    using UsiOverflowHandler_fills[of ?s0 cfg inp] fills
    by (cases "UsiOverflowHandler cfg inp ?s0") (simp_all add: deferred_def)
  then show ?thesis
    by (rule outcome_ok_and_then) (simp add: loop_inv_def emit_def run_append)
qed

lemma main_loop_body_ok:
  assumes "loop_inv s"
  shows "iteration_ok (main_loop_body cfg inp s)"
  unfolding main_loop_body_def iteration_ok_def
proof (rule outcome_ok_and_then[where R = "\<lambda>u. loop_inv"], goal_cases)
  case 1
  show ?case using TwiStartHandler_ok[OF assms] assms by simp
next
  case (2 u s1)
  show ?case
  proof (rule outcome_ok_and_then[where R = "\<lambda>u. loop_inv"], goal_cases)
    case 1
    show ?case using handler_call_ok[OF 2] 2 by simp
  next
    case (2 u s2)
    have consumed: "run Polling (trace (emit Slow_Ops_Consumed (s2\<lparr>slow_ops_enabled := False\<rparr>))) =
                      Some Slow_Section"
      if "slow_ops_enabled s2"
      using 2 that by (auto simp: loop_inv_def emit_def run_append)
    show ?case
      using 2 slow_ops_ok[OF consumed, of cfg inp] not_initialized_ok[OF 2, of cfg]
      by (simp add: iteration_ok_def emit_def)
  qed
qed

lemma main_setup_inv:
  assumes "run Polling (trace s) = Some Polling"
  shows "loop_inv (main_setup cfg s)" and "loop_inv (main_setup cfg (c_startup cfg s))"
    and "loop_inv (main_setup cfg ((power_on cfg)\<lparr>trace := trace s\<rparr>))"
  using assms
  by (simp_all add: main_setup_def Let_def UsiTwiDriverInit_def emit_def loop_inv_def
      run_append c_startup_def SET_USI_SDA_AS_INPUT_def SET_USI_SDA_AND_SCL_AS_OUTPUT_def)

lemma main_loop_ok: "loop_inv s \<Longrightarrow> outcome_ok (\<lambda>u. loop_inv) (main_loop cfg inps s)"
proof (induction inps arbitrary: s)
  case Nil
  then show ?case by simp
next
  case (Cons inp inps)
  from main_loop_body_ok[OF Cons.prems, of cfg inp]
  show ?case
  proof (cases "main_loop_body cfg inp s")
    case (Returns u s')
    with main_loop_body_ok[OF Cons.prems, of cfg inp] have "loop_inv s'"
      by (simp add: iteration_ok_def)
    from Cons.IH[OF this] Returns show ?thesis by simp
  next
    case (Spins s')
    with main_loop_body_ok[OF Cons.prems, of cfg inp] show ?thesis
      by (simp add: iteration_ok_def)
  next
    case (Jumps t s')
    with main_loop_body_ok[OF Cons.prems, of cfg inp]
    have p: "run Polling (trace s') = Some Polling"
      by (simp add: iteration_ok_def)
    show ?thesis
      using Jumps p Cons.IH[OF main_setup_inv(2)[OF p]] Cons.IH[OF main_setup_inv(3)[OF p]]
      by (cases t) simp_all
  next
    case (Undefined s')
    with main_loop_body_ok[OF Cons.prems, of cfg inp] show ?thesis
      by (simp add: iteration_ok_def)
  qed
qed

lemma power_on_inv: "loop_inv (main_setup cfg (power_on cfg))"
  by (rule main_setup_inv(1)) (simp add: power_on_def c_startup_def)

lemma run_snoc:
  "run p (xs @ [e]) = (case run p xs of None \<Rightarrow> None | Some q \<Rightarrow> monitor q e)"
  by (simp add: run_append split: option.splits)

lemma run_Permitted:
  "run Polling tr = Some Permitted \<Longrightarrow>
     \<exists>t1 t2. tr = t1 @ Overflow_Return True # t2 \<and> (\<forall>x \<in> set t2. is_buffer_op x)"
proof (induction tr rule: rev_induct)
  case Nil
  then show ?case by simp
next
  case (snoc e tr)
  from snoc.prems obtain q where q: "run Polling tr = Some q" and m: "monitor q e = Some Permitted"
    by (auto simp: run_snoc split: option.splits)
  show ?case
  proof (cases e)
    case (Overflow_Return b)
    with m have "b" by (auto split: if_splits)
    with Overflow_Return have "tr @ [e] = tr @ Overflow_Return True # []" by simp
    then show ?thesis by (metis empty_iff empty_set)
  next
    case (Page_Fill a w)
    with m q snoc.IH obtain t1 t2 where
      "tr = t1 @ Overflow_Return True # t2" "\<forall>x \<in> set t2. is_buffer_op x"
      by auto
    then have "tr @ [e] = t1 @ Overflow_Return True # (t2 @ [e]) \<and>
               (\<forall>x \<in> set (t2 @ [e]). is_buffer_op x)"
      using Page_Fill by (simp add: is_buffer_op_def)
    then show ?thesis by blast
  next
    case Buffer_Clear
    with m q snoc.IH obtain t1 t2 where
      "tr = t1 @ Overflow_Return True # t2" "\<forall>x \<in> set t2. is_buffer_op x"
      by auto
    then have "tr @ [e] = t1 @ Overflow_Return True # (t2 @ [e]) \<and>
               (\<forall>x \<in> set (t2 @ [e]). is_buffer_op x)"
      using Buffer_Clear by (simp add: is_buffer_op_def)
    then show ?thesis by blast
  qed (use m in \<open>auto split: if_splits\<close>)
qed

lemma run_Slow_Section:
  "run Polling tr = Some Slow_Section \<Longrightarrow>
     \<exists>t1 t2 t3. tr = t1 @ Overflow_Return True # t2 @ Slow_Ops_Consumed # t3 \<and>
                (\<forall>x \<in> set t2. is_buffer_op x) \<and> (\<forall>x \<in> set t3. is_flash_op x)"
proof (induction tr rule: rev_induct)
  case Nil
  then show ?case by simp
next
  case (snoc e tr)
  from snoc.prems obtain q where q: "run Polling tr = Some q" and m: "monitor q e = Some Slow_Section"
    by (auto simp: run_snoc split: option.splits)
  have extend: ?case if "q = Slow_Section" "is_flash_op e"
  proof -
    from that q snoc.IH obtain t1 t2 t3 where
      "tr = t1 @ Overflow_Return True # t2 @ Slow_Ops_Consumed # t3"
      "\<forall>x \<in> set t2. is_buffer_op x" "\<forall>x \<in> set t3. is_flash_op x"
      by auto
    then have "tr @ [e] = t1 @ Overflow_Return True # t2 @ Slow_Ops_Consumed # (t3 @ [e]) \<and>
               (\<forall>x \<in> set t2. is_buffer_op x) \<and> (\<forall>x \<in> set (t3 @ [e]). is_flash_op x)"
      using that(2) by simp
    then show ?thesis by blast
  qed
  show ?case
  proof (cases e)
    case Slow_Ops_Consumed
    with m have "q = Permitted" by (auto split: if_splits)
    with q run_Permitted obtain t1 t2 where
      "tr = t1 @ Overflow_Return True # t2" "\<forall>x \<in> set t2. is_buffer_op x"
      by blast
    then have "tr @ [e] = t1 @ Overflow_Return True # t2 @ Slow_Ops_Consumed # [] \<and>
               (\<forall>x \<in> set t2. is_buffer_op x) \<and> (\<forall>x \<in> set []. is_flash_op x)"
      using Slow_Ops_Consumed by simp
    then show ?thesis by blast
  next
    case (Page_Fill a w)
    with m show ?thesis by (intro extend) (auto simp: is_flash_op_def split: if_splits)
  next
    case Buffer_Clear
    with m show ?thesis by (intro extend) (auto simp: is_flash_op_def split: if_splits)
  next
    case (Page_Erase a)
    with m show ?thesis by (intro extend) (auto simp: is_flash_op_def split: if_splits)
  next
    case (Page_Write a)
    with m show ?thesis by (intro extend) (auto simp: is_flash_op_def split: if_splits)
  qed (use m in \<open>auto split: if_splits\<close>)
qed

lemma deferred_before_erase_write:
  assumes "deferred (pre @ e # post)" and "(\<exists>a. e = Page_Erase a) \<or> (\<exists>a. e = Page_Write a)"
  shows "\<exists>t1 t2 t3. pre = t1 @ Overflow_Return True # t2 @ Slow_Ops_Consumed # t3 \<and>
                    (\<forall>x \<in> set t2. is_buffer_op x) \<and> (\<forall>x \<in> set t3. is_flash_op x)"
proof -
  from assms(1) obtain q where q: "run Polling pre = Some q" and m: "monitor q e \<noteq> None"
    by (auto simp: deferred_def run_append split: option.splits)
  from m assms(2) have "q = Slow_Section"
    by (auto split: if_splits)
  with q show ?thesis by (intro run_Slow_Section) simp
qed

lemma monitor_examples:
  "deferred [Buffer_Clear, Overflow_Enter, Page_Fill 0 1, Overflow_Return True, Slow_Ops_Consumed,
             Page_Erase 0, Page_Write 0]"
  "\<not> deferred [Overflow_Enter, Page_Erase 0, Overflow_Return True]"
  "\<not> deferred [Overflow_Enter, Overflow_Return False, Slow_Ops_Consumed, Page_Write 0]"
  "\<not> deferred [Overflow_Enter, Overflow_Return True, Page_Write 0]"
  "\<not> deferred [Overflow_Enter, Overflow_Return True, Slow_Ops_Consumed, Overflow_Enter,
               Overflow_Return False, Page_Erase 0]"
  by (simp_all add: deferred_def)

section \<open>A run of the example build\<close>

text \<open>
  Rules that evaluate a run on concrete inputs call by call: the state a call returns is
  computed before the continuation is looked at.
\<close>

lemma erase_loop_example:
  "erase_loop example_config 0x1A00 s =
     Some (s\<lparr>trace := trace s @ map Page_Erase (erased_pages example_config 104)\<rparr>)"
  using erase_loop_pages[of example_config 104 s] by (simp add: example_fields)

lemmas run_example =
  main_def main_loop_body_def main_setup_def power_on_def c_startup_def
  UsiTwiDriverInit_def TwiStartHandler_def UsiOverflowHandler_def SEND_DATA_BYTE_case_def
  ReceiveEvent_def Reply_GETTMNLV_def Reply_DELFLASH_def
  UsiTwiTransmitByte_def next_ix_15 TWI_TX_BUFFER_MASK_def TWI_RX_BUFFER_MASK_def
  RX_drain.simps slow_ops_def not_initialized_def initialized_def leave_def write_page_def
  erase_loop_example emit_def flag_set_def raise_flag_def boot_page_erase_def boot_page_fill_def
  boot_page_write_def example_fields example_codes_def bus_start_def bus_byte_def
  quiet_inputs_def Let_def pin_high_def
  SET_USI_SDA_AS_OUTPUT_def SET_USI_SDA_AS_INPUT_def SET_USI_SDA_AND_SCL_AS_OUTPUT_def
  SET_USI_TO_DETECT_TWI_START_def SET_USI_TO_DETECT_TWI_RESTART_def
  SET_USI_TO_SHIFT_8_ADDRESS_BITS_def SET_USI_TO_SHIFT_8_DATA_BITS_def
  SET_USI_TO_SHIFT_1_ACK_BIT_def SET_USI_TO_WAIT_FOR_TWI_ADDRESS_def SET_USI_TO_SEND_BYTE_def
  SET_USI_TO_RECEIVE_BYTE_def SET_USI_TO_SEND_ACK_def SET_USI_TO_RECEIVE_ACK_def
  TWI_START_COND_FLAG_def USI_OVERFLOW_FLAG_def TWI_STOP_COND_FLAG_def TWI_COLLISION_FLAG_def
  USICNT0_def TWI_START_COND_INT_def USI_OVERFLOW_INT_def USIWM1_def USIWM0_def USICS1_def
  USICS0_def USICLK_def USITC_def PORT_USI_SDA_def PORT_USI_SCL_def PIN_USI_SDA_def
  TIMONEL_VER_MJR_def TIMONEL_VER_MNR_def

lemma erase_session_trace:
  "map_option trace (final (main example_config erase_session)) =
     Some (Buffer_Clear # transaction_events @ transaction_events @
           map Page_Erase (erased_pages example_config 104) @
           [Jumped To_Timonel_Start, Buffer_Clear])"
  by (simp add: run_example erase_session_def transaction_events_def
      cong: and_then_weak_cong let_weak_cong)

lemma final_total: "\<exists>s'. final x = Some s'"
  by (cases x) simp_all

lemma erased_pages_Suc:
  "erased_pages cfg (Suc k) = of_nat (k * SPM_PAGESIZE cfg) # erased_pages cfg k"
  by (simp add: erased_pages_def)

section \<open>Slow-operation deferral\<close>

text \<open>
  C3: the flash is erased and written only from the slow-operation section of the main
  loop. First, whatever \<open>UsiOverflowHandler\<close> and the command handlers it calls add to
  the trace are fills of the temporary page buffer: no \<open>boot_page_erase\<close>, no
  \<open>boot_page_write\<close>, and the handler never jumps away. Second, every run of \<open>main\<close>
  from power-on, over any inputs and however it ends (at the head of the loop, in a busy
  wait, in the application, or at a write outside an array, where the language stops
  defining the program), has a trace that the monitor \<open>run\<close> accepts, so a permission is
  consumed once. Third, in that trace each \<open>boot_page_erase\<close> and each \<open>boot_page_write\<close>
  comes after a return of \<open>UsiOverflowHandler\<close> with \<open>true\<close> and, after that return, the
  assignment \<open>slow_ops_enabled = false\<close>; between the return and the assignment there are
  only operations on the page buffer, between the assignment and the call only flash
  operations, so no other call of the handler lies in between.
\<close>

theorem C3_slow_op_deferral:
  "(\<exists>s' fs. final (UsiOverflowHandler cfg inp s) = Some s' \<and> trace s' = trace s @ fs \<and>
            (\<forall>e \<in> set fs. \<exists>a w. e = Page_Fill a w)) \<and>
   (\<forall>t s'. UsiOverflowHandler cfg inp s \<noteq> Jumps t s') \<and>
   (\<exists>s'. final (main cfg inps) = Some s' \<and> deferred (trace s') \<and>
         (\<forall>pre e post.
            trace s' = pre @ e # post \<and>
            ((\<exists>a. e = Page_Erase a) \<or> (\<exists>a. e = Page_Write a)) \<longrightarrow>
              (\<exists>t1 t2 t3. pre = t1 @ Overflow_Return True # t2 @ Slow_Ops_Consumed # t3 \<and>
                          (\<forall>x \<in> set t2. is_buffer_op x) \<and> (\<forall>x \<in> set t3. is_flash_op x))))"
proof -
  have h: "\<exists>s' fs. final (UsiOverflowHandler cfg inp s) = Some s' \<and> trace s' = trace s @ fs \<and>
                   (\<forall>e \<in> set fs. \<exists>a w. e = Page_Fill a w)"
  proof -
    obtain s' where s': "final (UsiOverflowHandler cfg inp s) = Some s'"
      using final_total by blast
    with UsiOverflowHandler_fills[of s cfg inp] have "only_fills s s'"
      by (cases "UsiOverflowHandler cfg inp s") simp_all
    with s' show ?thesis
      by (auto simp: only_fills_def is_fill_iff)
  qed
  have j: "UsiOverflowHandler cfg inp s \<noteq> Jumps t s'" for t s'
    using UsiOverflowHandler_fills[of s cfg inp] by auto
  obtain s' where s': "final (main cfg inps) = Some s'"
    using final_total by blast
  have "outcome_ok (\<lambda>u. loop_inv) (main cfg inps)"
    unfolding main_def by (rule main_loop_ok[OF power_on_inv])
  with s' have d: "deferred (trace s')"
    by (cases "main cfg inps") (auto simp: deferred_def dest: loop_inv_deferred)
  have x: "\<exists>t1 t2 t3. pre = t1 @ Overflow_Return True # t2 @ Slow_Ops_Consumed # t3 \<and>
                    (\<forall>x \<in> set t2. is_buffer_op x) \<and> (\<forall>x \<in> set t3. is_flash_op x)"
    if "trace s' = pre @ e # post"
       "(\<exists>a. e = Page_Erase a) \<or> (\<exists>a. e = Page_Write a)" for pre e post
    using d that deferred_before_erase_write[of pre e post] by simp
  from s' d x have "\<exists>s'. final (main cfg inps) = Some s' \<and> deferred (trace s') \<and>
         (\<forall>pre e post.
            trace s' = pre @ e # post \<and>
            ((\<exists>a. e = Page_Erase a) \<or> (\<exists>a. e = Page_Write a)) \<longrightarrow>
              (\<exists>t1 t2 t3. pre = t1 @ Overflow_Return True # t2 @ Slow_Ops_Consumed # t3 \<and>
                          (\<forall>x \<in> set t2. is_buffer_op x) \<and> (\<forall>x \<in> set t3. is_flash_op x)))"
    by blast
  with h j show ?thesis by blast
qed

theorem C3_slow_op_deferral_witness:
  "\<exists>s'. final (main example_config erase_session) = Some s' \<and>
        trace s' = (Buffer_Clear # transaction_events @ transaction_events) @
                   Page_Erase 0x19C0 #
                   map Page_Erase (erased_pages example_config 103) @
                   [Jumped To_Timonel_Start, Buffer_Clear] \<and>
        deferred (trace s') \<and>
        (\<exists>t1 t2 t3. Buffer_Clear # transaction_events @ transaction_events =
                      t1 @ Overflow_Return True # t2 @ Slow_Ops_Consumed # t3 \<and>
                    (\<forall>x \<in> set t2. is_buffer_op x) \<and> (\<forall>x \<in> set t3. is_flash_op x))"
proof -
  from C3_slow_op_deferral[of example_config quiet_inputs example_state erase_session]
  obtain s' where s': "final (main example_config erase_session) = Some s'"
    and d: "deferred (trace s')"
    and x: "\<And>pre e post. trace s' = pre @ e # post \<Longrightarrow>
              (\<exists>a. e = Page_Erase a) \<or> (\<exists>a. e = Page_Write a) \<Longrightarrow>
              \<exists>t1 t2 t3. pre = t1 @ Overflow_Return True # t2 @ Slow_Ops_Consumed # t3 \<and>
                         (\<forall>x \<in> set t2. is_buffer_op x) \<and> (\<forall>x \<in> set t3. is_flash_op x)"
    by blast
  have "erased_pages example_config (Suc 103) = 0x19C0 # erased_pages example_config 103"
    unfolding erased_pages_Suc by (simp add: example_fields)
  then have "erased_pages example_config 104 = 0x19C0 # erased_pages example_config 103"
    by simp
  with erase_session_trace s'
  have t: "trace s' = (Buffer_Clear # transaction_events @ transaction_events) @
                      Page_Erase 0x19C0 #
                      map Page_Erase (erased_pages example_config 103) @
                      [Jumped To_Timonel_Start, Buffer_Clear]"
    by simp
  from x[OF t] s' t d show ?thesis by blast
qed

section \<open>Trampoline arithmetic\<close>

text \<open>
  C5 (as stated): with \<open>TIMONEL_START = 0x1A00\<close> and \<open>app_vec = 0x0000\<close> the formula
  is claimed to give \<open>0xC0FF\<close>. It does not.
\<close>

theorem C5_tpl_not_C0FF: "tpl_word 0x1A00 0 0 \<noteq> 0xC0FF"
  by (simp add: tpl_word_def app_vec_def)

text \<open>
  C5 (amended): with \<open>TIMONEL_START = 0x1A00\<close> and \<open>app_vec = 0x0000\<close> (both saved
  reset-vector bytes zero) the formula gives \<open>0xC301\<close>: the 12-bit two's complement of
  \<open>0x0D00 - 1 = 0x0CFF\<close> is \<open>0x301\<close>.
\<close>

theorem C5_tpl_value: "tpl_word 0x1A00 0 0 = 0xC301"
  by (simp add: tpl_word_def app_vec_def)

end
